theory Spec2Isabelle
  imports Main
begin

section \<open>The raw data tracer of coverage/pytracer.py\<close>

text \<open>
  The class \<open>PyTracer\<close> is a state machine driven by the interpreter: for every
  call, line, return and exception of the traced program the interpreter calls
  \<open>_trace(frame, event, arg)\<close>. The model passes the object \<open>self\<close> explicitly
  and returns it updated; an exception raised inside the handler is a value \<open>Inl\<close>.
\<close>

subsection \<open>Frames, plugins, dispositions\<close>

text \<open>
  Of a frame object the tracer reads \<open>f_code.co_filename\<close>, \<open>f_code.co_firstlineno\<close>,
  \<open>f_lineno\<close> and \<open>f_back\<close>, and it compares frames with \<open>==\<close>, which is object
  identity for frames: \<open>frame_id\<close>. \<open>f_back\<close> is the identity of the caller's frame.
\<close>

record frame =
  frame_id :: nat
  co_filename :: string
  co_firstlineno :: int
  f_lineno :: int
  f_back :: "nat option"

text \<open>
  A plugin object: its \<open>__name__\<close>, the function \<open>dynamic_source_file_name()\<close> hands
  out (or \<open>None\<close>), and \<open>line_number_range(frame)\<close>.
\<close>

record plugin_obj =
  plugin_name :: string
  dynamic_source_file_name :: "(string option \<Rightarrow> frame \<Rightarrow> string option) option"
  line_number_range :: "frame \<Rightarrow> int \<times> int"

text \<open>What \<open>should_trace(filename, frame)\<close> answers: \<open>disp.trace\<close>,
  \<open>disp.source_filename\<close>, \<open>disp.plugin\<close>.\<close>

record disposition =
  trace :: bool
  source_filename :: "string option"
  disp_plugin :: "plugin_obj option"

subsection \<open>The values held by the attributes\<close>

text \<open>
  \<open>__init__\<close> stores empty lists in \<open>self.plugin\<close> and \<open>self.cur_file_dict\<close> and the
  list \<open>[0]\<close> in \<open>self.last_line\<close>; afterwards they hold \<open>None\<close> or an object, and an
  integer. \<open>EmptyList\<close> and \<open>PyNone\<close> are both false in a condition, but only
  \<open>PyNone\<close> \<open>is None\<close>.
\<close>

datatype 'a pyval = EmptyList | PyNone | Obj 'a

datatype lastline = ListZero | LineNo int

text \<open>
  A key of a file's dictionary: a line number (line mode) or a pair of line numbers
  (arc mode). Every value stored is \<open>None\<close>, so the dictionary is the set of its keys.
\<close>

datatype key = LineKey int | ArcKey int int

text \<open>What the call handler saves: \<open>(self.plugin, self.cur_file_dict, self.last_line)\<close>.
  The dictionary \<open>self.data[tracename]\<close> is created once and never rebound or deleted
  by the tracer, so a reference to it is modelled by \<open>tracename\<close>.\<close>

type_synonym saved_context = "plugin_obj pyval \<times> string pyval \<times> lastline"

text \<open>
  \<open>self.data_stack\<close> is a reference to a list: the one made by \<open>__init__\<close>, or the
  one stored in the defaultdict \<open>self.data_stacks\<close> under a coroutine identity.
\<close>

datatype stack_ref = InitStack | StackOf nat

datatype event = Call | Line | Return | Exception | OtherEvent

datatype error = IndexError | TypeError

text \<open>What \<open>_trace\<close> and \<open>start\<close> return, and what \<open>sys.settrace\<close> holds for a
  thread: \<open>None\<close>, the bound method \<open>self._trace\<close>, or some other function.\<close>

datatype hook = NoHook | SelfTrace | OtherHook nat

record pytracer =
  data :: "string \<rightharpoonup> key set"
  arcs :: bool
  should_trace :: "string \<Rightarrow> frame \<Rightarrow> disposition"
  should_trace_cache :: "string \<rightharpoonup> disposition"
  warn :: bool
  plugin_data :: "string \<rightharpoonup> string"
  threading :: bool
  plugin :: "plugin_obj pyval"
  cur_file_dict :: "string pyval"
  last_line :: lastline
  init_stack :: "saved_context list"
  data_stack :: stack_ref
  data_stacks :: "nat \<rightharpoonup> saved_context list"
  last_exc_back :: "nat option"
  last_exc_firstlineno :: int
  thread :: "nat option"
  stopped :: bool
  coroutine_id_func :: bool
  last_coroutine :: "nat option"
  check_include :: "string \<Rightarrow> bool"
  oracle_calls :: "(string \<times> frame) list"

text \<open>
  Fields that stand for the tracer's surroundings:
  \<^item> \<open>warn\<close>, \<open>threading\<close> and \<open>coroutine_id_func\<close> say whether the collector set the
    attribute (a callable or module) or left it \<open>None\<close>; what \<open>coroutine_id_func()\<close>
    answers while an event is handled is passed with the event;
  \<^item> \<open>check_include\<close> is called by \<open>_trace\<close> but defined outside this file: it is a
    parameter;
  \<^item> \<open>oracle_calls\<close> logs every call \<open>self.should_trace(filename, frame)\<close> makes.
\<close>

subsection \<open>Dictionaries and stacks\<close>

text \<open>\<open>self.data[name]\<close> read as a set of keys (an absent entry has none).\<close>

definition file_dict :: "pytracer \<Rightarrow> string \<Rightarrow> key set" where
  "file_dict self name = (case data self name of None \<Rightarrow> {} | Some d \<Rightarrow> d)"

text \<open>\<open>d[k] = None\<close> on the dictionary \<open>d = self.data[name]\<close>.\<close>

definition dict_store :: "string \<Rightarrow> key \<Rightarrow> pytracer \<Rightarrow> pytracer" where
  "dict_store name k self = self\<lparr>data := (data self)(name \<mapsto> insert k (file_dict self name))\<rparr>"

text \<open>The condition \<open>self.cur_file_dict\<close>: false for \<open>[]\<close>, \<open>None\<close> and an empty
  dictionary.\<close>

definition cur_file_dict_true :: "pytracer \<Rightarrow> bool" where
  "cur_file_dict_true self =
     (case cur_file_dict self of Obj name \<Rightarrow> file_dict self name \<noteq> {} | _ \<Rightarrow> False)"

text \<open>The list \<open>self.data_stack\<close> refers to, and writing through the reference.\<close>

definition stack_list :: "pytracer \<Rightarrow> saved_context list" where
  "stack_list self =
     (case data_stack self of
        InitStack \<Rightarrow> init_stack self
      | StackOf c \<Rightarrow> (case data_stacks self c of None \<Rightarrow> [] | Some xs \<Rightarrow> xs))"

definition stack_assign :: "saved_context list \<Rightarrow> pytracer \<Rightarrow> pytracer" where
  "stack_assign xs self =
     (case data_stack self of
        InitStack \<Rightarrow> self\<lparr>init_stack := xs\<rparr>
      | StackOf c \<Rightarrow> self\<lparr>data_stacks := (data_stacks self)(c \<mapsto> xs)\<rparr>)"

text \<open>\<open>self.data_stack = self.data_stacks[c]\<close>: the defaultdict makes an empty list
  for a new key.\<close>

definition select_stack :: "nat \<Rightarrow> pytracer \<Rightarrow> pytracer" where
  "select_stack c self =
     self\<lparr>data_stack := StackOf c,
          data_stacks := (case data_stacks self c of
                            None \<Rightarrow> (data_stacks self)(c \<mapsto> [])
                          | Some xs \<Rightarrow> data_stacks self)\<rparr>"

text \<open>\<open>self.data_stack.append((self.plugin, self.cur_file_dict, self.last_line))\<close>.\<close>

definition push_context :: "pytracer \<Rightarrow> pytracer" where
  "push_context self =
     stack_assign (stack_list self @ [(plugin self, cur_file_dict self, last_line self)]) self"

text \<open>\<open>self.plugin, self.cur_file_dict, self.last_line = self.data_stack.pop()\<close>:
  \<open>pop\<close> raises IndexError on an empty list.\<close>

definition pop_context :: "pytracer \<Rightarrow> error + pytracer" where
  "pop_context self =
     (if stack_list self = [] then Inl IndexError
      else (case last (stack_list self) of
              (p, d, l) \<Rightarrow>
                Inr ((stack_assign (butlast (stack_list self)) self)
                       \<lparr>plugin := p, cur_file_dict := d, last_line := l\<rparr>)))"

text \<open>\<open>self.cur_file_dict[(self.last_line, n)] = None\<close> in arc mode, once the condition
  \<open>self.cur_file_dict\<close> held: a tuple holding the list \<open>[0]\<close> cannot be hashed.\<close>

definition store_arc :: "int \<Rightarrow> pytracer \<Rightarrow> error + pytracer" where
  "store_arc n self =
     (case cur_file_dict self of
        Obj name \<Rightarrow>
          (case last_line self of
             ListZero \<Rightarrow> Inl TypeError
           | LineNo l \<Rightarrow> Inr (dict_store name (ArcKey l n) self))
      | _ \<Rightarrow> Inl TypeError)"

subsection \<open>The trace function\<close>

text \<open>Lines 62-73: a frame equal to \<open>self.last_exc_back\<close> means a return event was
  skipped; the marker is dropped in either case.\<close>

definition missed_return :: "frame \<Rightarrow> nat \<Rightarrow> pytracer \<Rightarrow> error + pytracer" where
  "missed_return frame co self =
     (case last_exc_back self of
        None \<Rightarrow> Inr self
      | Some b \<Rightarrow>
          (if frame_id frame = b then
             (case (if arcs self \<and> cur_file_dict_true self
                    then store_arc (- last_exc_firstlineno self) self else Inr self) of
                Inl e \<Rightarrow> Inl e
              | Inr self1 \<Rightarrow>
                  (case pop_context (if coroutine_id_func self1 then select_stack co self1 else self1) of
                     Inl e \<Rightarrow> Inl e
                   | Inr self2 \<Rightarrow> Inr (self2\<lparr>last_exc_back := None\<rparr>)))
           else Inr (self\<lparr>last_exc_back := None\<rparr>)))"

text \<open>Lines 92-102: the name the frame is traced under, if any.\<close>

definition tracename_of :: "pytracer \<Rightarrow> disposition \<Rightarrow> frame \<Rightarrow> string option" where
  "tracename_of self disp frame =
     (if trace disp then
        (case disp_plugin disp of
           None \<Rightarrow> source_filename disp
         | Some p \<Rightarrow>
             (case dynamic_source_file_name p of
                None \<Rightarrow> source_filename disp
              | Some dyn_func \<Rightarrow>
                  (case dyn_func (source_filename disp) frame of
                     None \<Rightarrow> None
                   | Some t \<Rightarrow> if t \<noteq> [] \<and> \<not> check_include self t then None else Some t)))
      else None)"

text \<open>Lines 85-88: the disposition of a file name, from the cache or from the oracle.\<close>

definition lookup_disp :: "frame \<Rightarrow> pytracer \<Rightarrow> disposition \<times> pytracer" where
  "lookup_disp frame self =
     (case should_trace_cache self (co_filename frame) of
        Some disp \<Rightarrow> (disp, self)
      | None \<Rightarrow>
          (should_trace self (co_filename frame) frame,
           self\<lparr>should_trace_cache :=
                   (should_trace_cache self)
                     (co_filename frame \<mapsto> should_trace self (co_filename frame) frame),
                 oracle_calls := oracle_calls self @ [(co_filename frame, frame)]\<rparr>))"

text \<open>Lines 103-109: a non-empty name switches recording on.\<close>

definition enter_file :: "disposition \<Rightarrow> string option \<Rightarrow> pytracer \<Rightarrow> pytracer" where
  "enter_file disp tracename self =
     (case tracename of
        None \<Rightarrow> self
      | Some name \<Rightarrow>
          (if name = [] then self
           else
             (if data self name = None then
                self\<lparr>data := (data self)(name \<mapsto> {}),
                     plugin_data := (case disp_plugin disp of
                                       None \<Rightarrow> plugin_data self
                                     | Some p \<Rightarrow> (plugin_data self)(name \<mapsto> plugin_name p))\<rparr>
              else self)
             \<lparr>cur_file_dict := Obj name,
              plugin := (case disp_plugin disp of None \<Rightarrow> PyNone | Some p \<Rightarrow> Obj p)\<rparr>))"

text \<open>Lines 75-112, the event \<open>'call'\<close>.\<close>

definition on_call :: "frame \<Rightarrow> nat \<Rightarrow> pytracer \<Rightarrow> pytracer" where
  "on_call frame co self =
     (case lookup_disp frame
             (push_context
                (if coroutine_id_func self
                 then (select_stack co self)\<lparr>last_coroutine := Some co\<rparr> else self)) of
        (disp, self1) \<Rightarrow>
          (enter_file disp (tracename_of self1 disp frame)
             (self1\<lparr>plugin := PyNone, cur_file_dict := PyNone\<rparr>))
          \<lparr>last_line := LineNo (- 1)\<rparr>)"

text \<open>Lines 115-118: the lines the statement spans.\<close>

definition line_span :: "pytracer \<Rightarrow> frame \<Rightarrow> int \<times> int" where
  "line_span self frame =
     (case plugin self of
        Obj p \<Rightarrow> line_number_range p frame
      | _ \<Rightarrow> (f_lineno frame, f_lineno frame))"

text \<open>Lines 113-126, the event \<open>'line'\<close>. An assignment into the empty list of
  \<open>__init__\<close> raises: TypeError for a tuple index, IndexError for an integer.\<close>

definition on_line :: "frame \<Rightarrow> pytracer \<Rightarrow> error + pytracer" where
  "on_line frame self =
     (case line_span self frame of
        (lineno_from, lineno_to) \<Rightarrow>
          (if lineno_from \<noteq> - 1 then
             (case (case cur_file_dict self of
                      PyNone \<Rightarrow> Inr self
                    | EmptyList \<Rightarrow>
                        (if arcs self then Inl TypeError
                         else if lineno_from \<le> lineno_to then Inl IndexError else Inr self)
                    | Obj name \<Rightarrow>
                        (if arcs self then store_arc lineno_from self
                         else Inr (foldl (\<lambda>s lineno. dict_store name (LineKey lineno) s) self
                                     [lineno_from..lineno_to]))) of
                Inl e \<Rightarrow> Inl e
              | Inr self1 \<Rightarrow> Inr (self1\<lparr>last_line := LineNo lineno_to\<rparr>))
           else Inr self))"

text \<open>Lines 127-137, the event \<open>'return'\<close>.\<close>

definition on_return :: "frame \<Rightarrow> nat \<Rightarrow> pytracer \<Rightarrow> error + pytracer" where
  "on_return frame co self =
     (case (if arcs self \<and> cur_file_dict_true self
            then store_arc (- co_firstlineno frame) self else Inr self) of
        Inl e \<Rightarrow> Inl e
      | Inr self1 \<Rightarrow>
          pop_context
            (if coroutine_id_func self1
             then (select_stack co self1)\<lparr>last_coroutine := Some co\<rparr> else self1))"

text \<open>Lines 138-140, the event \<open>'exception'\<close>.\<close>

definition on_exception :: "frame \<Rightarrow> pytracer \<Rightarrow> pytracer" where
  "on_exception frame self =
     self\<lparr>last_exc_back := f_back frame, last_exc_firstlineno := co_firstlineno frame\<rparr>"

text \<open>
  \<open>_trace(self, frame, event, arg_unused)\<close>, with \<open>co\<close> the answer of
  \<open>self.coroutine_id_func()\<close> during this call. A stopped tracer returns \<open>None\<close> at
  once; otherwise the function returns \<open>self._trace\<close>. \<open>dispatch\<close> is the chain
  \<open>if event == 'call': ... elif event == 'line': ...\<close> of lines 75-140.
\<close>

definition dispatch :: "frame \<Rightarrow> event \<Rightarrow> nat \<Rightarrow> pytracer \<Rightarrow> error + pytracer" where
  "dispatch frame event co self =
     (case event of
        Call \<Rightarrow> Inr (on_call frame co self)
      | Line \<Rightarrow> on_line frame self
      | Return \<Rightarrow> on_return frame co self
      | Exception \<Rightarrow> Inr (on_exception frame self)
      | OtherEvent \<Rightarrow> Inr self)"

definition PyTracer_trace ::
  "frame \<Rightarrow> event \<Rightarrow> nat \<Rightarrow> pytracer \<Rightarrow> error + (hook \<times> pytracer)" where
  "PyTracer_trace frame event co self =
     (if stopped self then Inr (NoHook, self)
      else
        (case missed_return frame co self of
           Inl e \<Rightarrow> Inl e
         | Inr self1 \<Rightarrow>
             (case dispatch frame event co self1 of
                Inl e \<Rightarrow> Inl e
              | Inr self2 \<Rightarrow> Inr (SelfTrace, self2))))"

text \<open>
  The interpreter delivers events one after the other, each with its frame and the
  coroutine current at that moment; an exception raised by the trace function ends the
  tracing.
\<close>

fun run :: "(frame \<times> event \<times> nat) list \<Rightarrow> pytracer \<Rightarrow> error + pytracer" where
  "run [] self = Inr self"
| "run ((frame, event, co) # rest) self =
     (case PyTracer_trace frame event co self of
        Inl e \<Rightarrow> Inl e
      | Inr (r, self1) \<Rightarrow> run rest self1)"

subsection \<open>Construction, start, stop, statistics\<close>

text \<open>
  \<open>__init__\<close>, followed by the collector's assignments to \<open>should_trace\<close>,
  \<open>check_include\<close> and \<open>arcs\<close>, and of empty dictionaries to \<open>data\<close>,
  \<open>should_trace_cache\<close> and \<open>plugin_data\<close>; \<open>warn\<close>, \<open>threading\<close> and
  \<open>coroutine_id_func\<close> stay \<open>None\<close>.
\<close>

definition PyTracer_init ::
  "(string \<Rightarrow> frame \<Rightarrow> disposition) \<Rightarrow> (string \<Rightarrow> bool) \<Rightarrow> bool \<Rightarrow> pytracer" where
  "PyTracer_init oracle include arc_mode =
     \<lparr>data = Map.empty, arcs = arc_mode, should_trace = oracle,
      should_trace_cache = Map.empty, warn = False, plugin_data = Map.empty,
      threading = False, plugin = EmptyList, cur_file_dict = EmptyList,
      last_line = ListZero, init_stack = [], data_stack = InitStack,
      data_stacks = Map.empty, last_exc_back = None, last_exc_firstlineno = 0,
      thread = None, stopped = False, coroutine_id_func = False,
      last_coroutine = None, check_include = include, oracle_calls = []\<rparr>"

text \<open>
  What \<open>start\<close> and \<open>stop\<close> touch outside the object: the trace function
  \<open>sys.settrace\<close> holds for each thread, whether \<open>sys\<close> has \<open>gettrace\<close>, and the
  calls made to \<open>self.warn\<close> (each with the trace function it reports).
\<close>

record interpreter =
  settrace :: "nat \<Rightarrow> hook"
  has_gettrace :: bool
  warned :: "hook list"

text \<open>\<open>start()\<close> on thread \<open>cur\<close>.\<close>

definition start :: "nat \<Rightarrow> pytracer \<times> interpreter \<Rightarrow> hook \<times> pytracer \<times> interpreter" where
  "start cur st =
     (case st of
        (self, sys) \<Rightarrow>
          (SelfTrace,
           (if threading self then self\<lparr>thread := Some cur\<rparr> else self),
           sys\<lparr>settrace := (settrace sys)(cur := SelfTrace)\<rparr>))"

text \<open>\<open>stop()\<close> on thread \<open>cur\<close>.\<close>

definition stop :: "nat \<Rightarrow> pytracer \<times> interpreter \<Rightarrow> pytracer \<times> interpreter" where
  "stop cur st =
     (case st of
        (self, sys) \<Rightarrow>
          (if threading self \<and> thread self \<noteq> Some cur then (self\<lparr>stopped := True\<rparr>, sys)
           else
             (self\<lparr>stopped := True\<rparr>,
              (if has_gettrace sys \<and> warn self \<and> settrace sys cur \<noteq> SelfTrace
               then sys\<lparr>warned := warned sys @ [settrace sys cur]\<rparr> else sys)
              \<lparr>settrace := (settrace sys)(cur := NoHook)\<rparr>)))"

text \<open>\<open>get_stats()\<close>: "Return a dictionary of statistics, or None."\<close>

definition get_stats :: "pytracer \<Rightarrow> (string \<rightharpoonup> nat) option" where
  "get_stats self = None"

subsection \<open>Concrete inputs\<close>

text \<open>Two oracles without plugins: one traces every file under its own name, the other
  traces nothing.\<close>

definition trace_all :: "string \<Rightarrow> frame \<Rightarrow> disposition" where
  "trace_all filename frame =
     \<lparr>trace = True, source_filename = Some filename, disp_plugin = None\<rparr>"

definition trace_none :: "string \<Rightarrow> frame \<Rightarrow> disposition" where
  "trace_none filename frame =
     \<lparr>trace = False, source_filename = None, disp_plugin = None\<rparr>"

text \<open>A frame of the function \<open>f\<close> of \<open>f.py\<close>, whose code starts at line 10, called from
  the module frame of \<open>main.py\<close>.\<close>

definition in_f :: "nat \<Rightarrow> int \<Rightarrow> frame" where
  "in_f i n =
     \<lparr>frame_id = i, co_filename = ''f.py'', co_firstlineno = 10, f_lineno = n,
      f_back = Some 1\<rparr>"

definition in_main :: "int \<Rightarrow> frame" where
  "in_main n =
     \<lparr>frame_id = 1, co_filename = ''main.py'', co_firstlineno = 1, f_lineno = n,
      f_back = None\<rparr>"

text \<open>The events of one call of \<open>f\<close> (lines 10, 11, 12), and of a module that calls
  \<open>f\<close> from its line 5, \<open>n\<close> times.\<close>

definition call_f :: "nat \<Rightarrow> (frame \<times> event \<times> nat) list" where
  "call_f i =
     [(in_f i 10, Call, 0), (in_f i 10, Line, 0), (in_f i 11, Line, 0),
      (in_f i 12, Line, 0), (in_f i 12, Return, 0)]"

definition main_calls_f :: "nat \<Rightarrow> (frame \<times> event \<times> nat) list" where
  "main_calls_f n =
     [(in_main 1, Call, 0), (in_main 5, Line, 0)] @ concat (map call_f [2 ..< 2 + n])"

definition sys0 :: interpreter where
  "sys0 = \<lparr>settrace = (\<lambda>t. NoHook), has_gettrace = True, warned = []\<rparr>"

text \<open>An interpreter in which thread 1 has some other trace function installed, and
  a tracer with a \<open>warn\<close> callback and no threading module.\<close>

definition sys_other :: interpreter where
  "sys_other = sys0\<lparr>settrace := (settrace sys0)(1 := OtherHook 5)\<rparr>"

definition warning_tracer :: pytracer where
  "warning_tracer = (PyTracer_init trace_all (\<lambda>n. True) False)\<lparr>warn := True\<rparr>"

text \<open>A tracer that has just entered a file the oracle declines.\<close>

definition untraced :: pytracer where
  "untraced = on_call (in_f 2 10) 0 (PyTracer_init trace_none (\<lambda>n. True) False)"

text \<open>What a run has recorded for a file, or the exception that ended it.\<close>

definition recorded :: "error + pytracer \<Rightarrow> string \<Rightarrow> error + key set option" where
  "recorded res name = (case res of Inl e \<Rightarrow> Inl e | Inr self \<Rightarrow> Inr (data self name))"

subsection \<open>Views of a tracer\<close>

text \<open>\<open>last_coroutine\<close> is written by the call and return handlers and read nowhere;
  this view of a tracer leaves it out.\<close>

definition forget_coroutine :: "pytracer \<Rightarrow> pytracer" where
  "forget_coroutine self = self\<lparr>last_coroutine := None\<rparr>"

text \<open>The attributes no handler assigns.\<close>

definition settings :: "pytracer \<Rightarrow> bool \<times> bool \<times> bool \<times> (string \<Rightarrow> frame \<Rightarrow> disposition) \<times> (string \<Rightarrow> bool)" where
  "settings self =
     (arcs self, stopped self, coroutine_id_func self, should_trace self, check_include self)"

text \<open>The calls of the oracle a sequence of events must cause: one for each call event
  whose file name was not seen before (\<open>seen\<close>: the names seen so far), with the frame of
  that event.\<close>

fun first_calls :: "string set \<Rightarrow> (frame \<times> event \<times> nat) list \<Rightarrow> (string \<times> frame) list" where
  "first_calls seen [] = []"
| "first_calls seen ((frame, event, co) # rest) =
     (if event = Call \<and> co_filename frame \<notin> seen
      then (co_filename frame, frame) # first_calls (insert (co_filename frame) seen) rest
      else first_calls seen rest)"

text \<open>The cache and the calls made to the oracle.\<close>

definition oracle_view :: "pytracer \<Rightarrow> (string \<rightharpoonup> disposition) \<times> (string \<times> frame) list" where
  "oracle_view self = (should_trace_cache self, oracle_calls self)"

subsection \<open>Sequences of events and what they should record\<close>

text \<open>
  Call, line and return events, well paired: every line and return event lies inside
  a call, and every call has returned at the end. \<open>nesting d\<close> starts with \<open>d\<close> calls
  open.
\<close>

fun nesting :: "nat \<Rightarrow> (frame \<times> event \<times> nat) list \<Rightarrow> bool" where
  "nesting d [] = (d = 0)"
| "nesting d ((frame, event, co) # rest) =
     (case event of
        Call \<Rightarrow> nesting (Suc d) rest
      | Line \<Rightarrow> 0 < d \<and> nesting d rest
      | Return \<Rightarrow> 0 < d \<and> nesting (d - 1) rest
      | Exception \<Rightarrow> False
      | OtherEvent \<Rightarrow> False)"

definition well_paired :: "(frame \<times> event \<times> nat) list \<Rightarrow> bool" where
  "well_paired evs = nesting 0 evs"

text \<open>
  The oracle answers \<open>disp_of name\<close> for a file name, whatever the frame, and the cache
  holds nothing else.
\<close>

definition answers :: "pytracer \<Rightarrow> (string \<Rightarrow> disposition) \<Rightarrow> bool" where
  "answers self disp_of =
     ((\<forall>name frame. should_trace self name frame = disp_of name) \<and>
      (\<forall>name d. should_trace_cache self name = Some d \<longrightarrow> d = disp_of name))"

text \<open>
  What a call event makes of \<open>(self.plugin, self.cur_file_dict)\<close> for a frame whose file has
  the disposition \<open>disp\<close> (lines 90-109), and the lines a line event reports under the
  active plugin \<open>P\<close> (lines 115-118).
\<close>

type_synonym unit_ctx = "plugin_obj pyval \<times> string pyval"

definition entered :: "pytracer \<Rightarrow> disposition \<Rightarrow> frame \<Rightarrow> unit_ctx" where
  "entered self disp frame =
     (case tracename_of self disp frame of
        None \<Rightarrow> (PyNone, PyNone)
      | Some name \<Rightarrow>
          (if name = [] then (PyNone, PyNone)
           else ((case disp_plugin disp of None \<Rightarrow> PyNone | Some p \<Rightarrow> Obj p), Obj name)))"

definition span_in :: "plugin_obj pyval \<Rightarrow> frame \<Rightarrow> int \<times> int" where
  "span_in P frame =
     (case P of Obj p \<Rightarrow> line_number_range p frame | _ \<Rightarrow> (f_lineno frame, f_lineno frame))"

text \<open>The lines executed by a sequence of events, as seen through the plugin \<open>P\<close>
  (without a plugin: the \<open>f_lineno\<close> of every line event).\<close>

fun executed_lines :: "plugin_obj pyval \<Rightarrow> (frame \<times> event \<times> nat) list \<Rightarrow> int set" where
  "executed_lines P [] = {}"
| "executed_lines P ((frame, event, co) # rest) =
     (if event = Line
      then {fst (span_in P frame) .. snd (span_in P frame)} \<union> executed_lines P rest
      else executed_lines P rest)"

text \<open>
  The stack the call and return handlers use for events of coroutine \<open>c\<close>, and the
  attributes through which they reach it.
\<close>

definition stream_stack :: "nat \<Rightarrow> pytracer \<Rightarrow> saved_context list" where
  "stream_stack c self =
     (if coroutine_id_func self
      then (case data_stacks self c of None \<Rightarrow> [] | Some xs \<Rightarrow> xs)
      else stack_list self)"

definition stack_view :: "pytracer \<Rightarrow> bool \<times> stack_ref \<times> (nat \<rightharpoonup> saved_context list) \<times> saved_context list" where
  "stack_view self = (coroutine_id_func self, data_stack self, data_stacks self, init_stack self)"

text \<open>
  The bookkeeping of the handlers in line mode, without the tracer: the active plugin
  and file name, the stack of those saved by the open calls, and the lines recorded
  per file name. A step is undefined where a handler would raise or where the event
  is none of call, line, return.
\<close>

type_synonym walk_state = "unit_ctx \<times> unit_ctx list \<times> (string \<Rightarrow> int set)"

fun walk_step ::
  "pytracer \<Rightarrow> (string \<Rightarrow> disposition) \<Rightarrow> frame \<times> event \<times> nat \<Rightarrow> walk_state \<Rightarrow> walk_state option" where
  "walk_step self disp_of (frame, event, co) (cur, stk, L) =
     (case event of
        Call \<Rightarrow> Some (entered self (disp_of (co_filename frame)) frame, cur # stk, L)
      | Line \<Rightarrow>
          (case snd cur of
             EmptyList \<Rightarrow> None
           | PyNone \<Rightarrow> Some (cur, stk, L)
           | Obj name \<Rightarrow>
               Some (cur, stk,
                     (if fst (span_in (fst cur) frame) \<noteq> - 1
                      then L(name := L name \<union>
                             {fst (span_in (fst cur) frame) .. snd (span_in (fst cur) frame)})
                      else L)))
      | Return \<Rightarrow> (case stk of [] \<Rightarrow> None | c # cs \<Rightarrow> Some (c, cs, L))
      | Exception \<Rightarrow> None
      | OtherEvent \<Rightarrow> None)"

fun walk ::
  "pytracer \<Rightarrow> (string \<Rightarrow> disposition) \<Rightarrow> (frame \<times> event \<times> nat) list \<Rightarrow> walk_state \<Rightarrow> walk_state option" where
  "walk self disp_of [] w = Some w"
| "walk self disp_of (e # es) w =
     (case walk_step self disp_of e w of None \<Rightarrow> None | Some w' \<Rightarrow> walk self disp_of es w')"

text \<open>
  The tracer \<open>s\<close> agrees with a state \<open>w\<close> of that bookkeeping: same settings as
  \<open>self\<close>, no exception pending, the stack of coroutine \<open>c\<close> is \<open>base\<close> followed by the
  saved contexts of \<open>w\<close>, and the data are those of \<open>D\<close> with the lines of \<open>w\<close> added.
\<close>

definition follows ::
  "pytracer \<Rightarrow> (string \<Rightarrow> disposition) \<Rightarrow> nat \<Rightarrow> saved_context list \<Rightarrow> (string \<Rightarrow> key set) \<Rightarrow>
   pytracer \<Rightarrow> walk_state \<Rightarrow> bool" where
  "follows self disp_of c base D s w =
     (case w of
        (cur, stk, L) \<Rightarrow>
          settings s = settings self \<and> last_exc_back s = None \<and> answers s disp_of \<and>
          (\<exists>top. stream_stack c s = base @ top \<and> map (\<lambda>(p, d, l). (p, d)) top = rev stk) \<and>
          (plugin s, cur_file_dict s) = cur \<and>
          (\<forall>n. file_dict s n = D n \<union> LineKey ` L n))"

subsection \<open>Events of several coroutines\<close>

text \<open>The events delivered in coroutine \<open>c\<close>.\<close>

definition of_stream :: "nat \<Rightarrow> (frame \<times> event \<times> nat) list \<Rightarrow> (frame \<times> event \<times> nat) list" where
  "of_stream c evs = filter (\<lambda>(frame, event, co). co = c) evs"

text \<open>
  Every line event is handled while \<open>(self.plugin, self.cur_file_dict)\<close> is what the
  events of its own coroutine, handled alone, would have left there; \<open>pre\<close> holds the
  events already handled.
\<close>

fun lines_in_own_context ::
  "pytracer \<Rightarrow> (frame \<times> event \<times> nat) list \<Rightarrow> (frame \<times> event \<times> nat) list \<Rightarrow> bool" where
  "lines_in_own_context self pre [] = True"
| "lines_in_own_context self pre ((frame, event, co) # rest) =
     ((event = Line \<longrightarrow>
         map_sum id (\<lambda>s. (plugin s, cur_file_dict s)) (run pre self) =
         map_sum id (\<lambda>s. (plugin s, cur_file_dict s)) (run (of_stream co pre) self)) \<and>
      lines_in_own_context self (pre @ [(frame, event, co)]) rest)"

text \<open>
  The same read off the events alone. A call event makes its call the live one, and
  a return event makes live again the call that was live before the matching call
  event of its coroutine. \<open>own c\<close> is the innermost open call of coroutine \<open>c\<close>, and
  \<open>saved c\<close> holds, for every open call of \<open>c\<close>, the live call and the innermost open
  call of \<open>c\<close> that its call event found. At every line event the live call is the
  innermost open call of the event's coroutine.
\<close>

type_synonym call_marks = "(frame option \<times> frame option) list"

fun own_call_live ::
  "frame option \<Rightarrow> (nat \<Rightarrow> frame option) \<Rightarrow> (nat \<Rightarrow> call_marks) \<Rightarrow>
   (frame \<times> event \<times> nat) list \<Rightarrow> bool" where
  "own_call_live live own saved [] = True"
| "own_call_live live own saved ((frame, event, co) # rest) =
     (case event of
        Call \<Rightarrow>
          own_call_live (Some frame) (own(co := Some frame))
            (saved(co := (live, own co) # saved co)) rest
      | Line \<Rightarrow> live = own co \<and> own_call_live live own saved rest
      | Return \<Rightarrow>
          (case saved co of
             [] \<Rightarrow> False
           | (a, b) # below \<Rightarrow> own_call_live a (own(co := b)) (saved(co := below)) rest)
      | Exception \<Rightarrow> False
      | OtherEvent \<Rightarrow> False)"

text \<open>
  The plugin and file name a call makes active (those of \<open>self\<close> where no call is
  open), and a tracer \<open>s\<close> and a state \<open>(cur, stk)\<close> of the bookkeeping that agree with
  the marks of coroutine \<open>c\<close>: the stack of \<open>c\<close> in \<open>s\<close> holds what was live at each
  call, \<open>stk\<close> what was the own call of \<open>c\<close>.
\<close>

definition context_of :: "pytracer \<Rightarrow> (string \<Rightarrow> disposition) \<Rightarrow> frame option \<Rightarrow> unit_ctx" where
  "context_of self disp_of call =
     (case call of
        None \<Rightarrow> (plugin self, cur_file_dict self)
      | Some frame \<Rightarrow> entered self (disp_of (co_filename frame)) frame)"

definition stream_marks ::
  "pytracer \<Rightarrow> (string \<Rightarrow> disposition) \<Rightarrow> nat \<Rightarrow> saved_context list \<Rightarrow> pytracer \<Rightarrow>
   frame option \<Rightarrow> call_marks \<Rightarrow> unit_ctx \<Rightarrow> unit_ctx list \<Rightarrow> bool" where
  "stream_marks self disp_of c base s own_c saved_c cur stk =
     ((\<exists>top. stream_stack c s = base @ top \<and>
             map (\<lambda>(p, d, l). (p, d)) top =
               rev (map (\<lambda>(a, b). context_of self disp_of a) saved_c)) \<and>
      cur = context_of self disp_of own_c \<and>
      stk = map (\<lambda>(a, b). context_of self disp_of b) saved_c)"

text \<open>
  A tracer with a coroutine resolver, and the functions \<open>f\<close> (of \<open>f.py\<close>), \<open>g\<close> (of
  \<open>g.py\<close>, lines from 20) and \<open>switch\<close> (of \<open>hub.py\<close>, lines from 30) run by the
  coroutines 1 and 2. In \<open>crossed\<close> each coroutine goes on with a line event while the
  call of the other is live. In \<open>turns\<close> the coroutines change between complete
  calls; in \<open>nested\<close> a complete call of coroutine 2 runs inside the open call of
  coroutine 1; in \<open>bracketed\<close> each coroutine is suspended inside a call of \<open>switch\<close>
  and resumes with the return of that call; in \<open>shared_unit\<close> both run \<open>f\<close> and
  change at every event.
\<close>

definition in_g :: "nat \<Rightarrow> int \<Rightarrow> frame" where
  "in_g i n =
     \<lparr>frame_id = i, co_filename = ''g.py'', co_firstlineno = 20, f_lineno = n,
      f_back = Some 1\<rparr>"

definition in_hub :: "nat \<Rightarrow> int \<Rightarrow> frame" where
  "in_hub i n =
     \<lparr>frame_id = i, co_filename = ''hub.py'', co_firstlineno = 30, f_lineno = n,
      f_back = Some 2\<rparr>"

definition two_streams :: pytracer where
  "two_streams = (PyTracer_init trace_all (\<lambda>n. True) False)\<lparr>coroutine_id_func := True\<rparr>"

definition crossed :: "(frame \<times> event \<times> nat) list" where
  "crossed =
     [(in_f 2 10, Call, 1), (in_g 3 20, Call, 2), (in_f 2 10, Line, 1),
      (in_g 3 20, Line, 2), (in_f 2 10, Return, 1), (in_g 3 20, Return, 2)]"

definition turns :: "(frame \<times> event \<times> nat) list list" where
  "turns =
     [[(in_f 2 10, Call, 1), (in_f 2 10, Line, 1), (in_f 2 10, Return, 1)],
      [(in_g 3 20, Call, 2), (in_g 3 20, Line, 2), (in_g 3 20, Return, 2)],
      [(in_f 4 10, Call, 1), (in_f 4 11, Line, 1), (in_f 4 11, Return, 1)]]"

definition nested :: "(frame \<times> event \<times> nat) list" where
  "nested =
     [(in_f 2 10, Call, 1), (in_f 2 10, Line, 1),
      (in_g 3 20, Call, 2), (in_g 3 20, Line, 2), (in_g 3 20, Return, 2),
      (in_f 2 11, Line, 1), (in_f 2 11, Return, 1)]"

definition bracketed :: "(frame \<times> event \<times> nat) list" where
  "bracketed =
     [(in_f 2 10, Call, 1), (in_f 2 10, Line, 1), (in_hub 4 30, Call, 1), (in_hub 4 31, Line, 1),
      (in_g 3 20, Call, 2), (in_g 3 20, Line, 2), (in_hub 5 30, Call, 2), (in_hub 5 32, Line, 2),
      (in_hub 4 31, Return, 1), (in_f 2 11, Line, 1), (in_f 2 11, Return, 1),
      (in_hub 5 32, Return, 2), (in_g 3 21, Line, 2), (in_g 3 21, Return, 2)]"

definition shared_unit :: "(frame \<times> event \<times> nat) list" where
  "shared_unit =
     [(in_f 2 10, Call, 1), (in_f 3 10, Call, 2), (in_f 2 10, Line, 1),
      (in_f 3 11, Line, 2), (in_f 2 10, Return, 1), (in_f 3 11, Return, 2)]"

section \<open>Properties\<close>

lemmas trace_defs =
  PyTracer_trace_def dispatch_def missed_return_def on_call_def on_line_def on_return_def
  on_exception_def lookup_disp_def tracename_of_def enter_file_def line_span_def
  push_context_def pop_context_def stack_list_def stack_assign_def select_stack_def
  store_arc_def dict_store_def file_dict_def cur_file_dict_true_def

lemmas input_defs =
  PyTracer_init_def trace_all_def trace_none_def in_f_def in_main_def call_f_def
  main_calls_f_def sys0_def untraced_def recorded_def

subsection \<open>A stopped tracer\<close>

lemma trace_stopped:
  "stopped self \<Longrightarrow> PyTracer_trace frame event co self = Inr (NoHook, self)"
  by (simp add: PyTracer_trace_def)

lemma run_stopped: "stopped self \<Longrightarrow> run evs self = Inr self"
  by (induction evs) (auto simp: trace_stopped)

lemma trace_running:
  "\<not> stopped self \<Longrightarrow> PyTracer_trace frame event co self = Inr (r, self') \<Longrightarrow> r = SelfTrace"
  by (auto simp: PyTracer_trace_def split: sum.splits)

lemma missed_return_no_match:
  "last_exc_back self \<noteq> Some (frame_id frame) \<Longrightarrow>
   missed_return frame co self = Inr (self\<lparr>last_exc_back := None\<rparr>)"
  by (cases "last_exc_back self") (auto simp: missed_return_def)

text \<open>
  C10. \<open>get_stats()\<close> returns \<open>None\<close> whatever the state of the tracer: no counter is
  ever handed out.
\<close>

theorem get_stats_returns_None: "get_stats self = None"
  by (simp add: get_stats_def)

text \<open>
  C5, as amended. \<open>start()\<close> registers \<open>self._trace\<close> for its thread and returns it, and
  \<open>_trace\<close> returns that same function for every event it handles (without raising)
  while the tracer is not stopped. Once the tracer is stopped, \<open>_trace\<close> returns \<open>None\<close>
  and leaves the tracer as it is.
\<close>

theorem trace_returns_itself_until_stopped:
  "fst (start cur (self, sys)) = SelfTrace \<and>
   settrace (snd (snd (start cur (self, sys)))) cur = SelfTrace \<and>
   (\<not> stopped self \<longrightarrow> PyTracer_trace frame event co self = Inr (r, self') \<longrightarrow> r = SelfTrace) \<and>
   (stopped self \<longrightarrow> PyTracer_trace frame event co self = Inr (NoHook, self))"
  by (auto simp: start_def trace_stopped dest: trace_running)

theorem trace_returns_itself_until_stopped_witness:
  "\<not> stopped (PyTracer_init trace_all (\<lambda>n. True) False) \<and>
   PyTracer_trace (in_main 1) OtherEvent 0 (PyTracer_init trace_all (\<lambda>n. True) False) =
     Inr (SelfTrace, PyTracer_init trace_all (\<lambda>n. True) False) \<and>
   stopped ((PyTracer_init trace_all (\<lambda>n. True) False)\<lparr>stopped := True\<rparr>) \<and>
   PyTracer_trace (in_main 1) OtherEvent 0
       ((PyTracer_init trace_all (\<lambda>n. True) False)\<lparr>stopped := True\<rparr>) =
     Inr (NoHook, (PyTracer_init trace_all (\<lambda>n. True) False)\<lparr>stopped := True\<rparr>)"
  using trace_returns_itself_until_stopped
          [of 0 "PyTracer_init trace_all (\<lambda>n. True) False" sys0 "in_main 1" OtherEvent 0
              SelfTrace "PyTracer_init trace_all (\<lambda>n. True) False"]
        trace_returns_itself_until_stopped
          [of 0 "(PyTracer_init trace_all (\<lambda>n. True) False)\<lparr>stopped := True\<rparr>" sys0
              "in_main 1" OtherEvent 0]
  by (simp add: PyTracer_init_def PyTracer_trace_def dispatch_def missed_return_def)

text \<open>
  C5 as stated fails after \<open>stop()\<close>: a call event delivered to a tracer that was
  started and stopped on thread 0 is answered with \<open>None\<close>, not with \<open>self._trace\<close>.
\<close>

theorem trace_returns_None_after_stop:
  "PyTracer_trace (in_f 2 10) Call 0
     (fst (stop 0 (snd (start 0 (PyTracer_init trace_all (\<lambda>n. True) False, sys0))))) =
   Inr (NoHook, (PyTracer_init trace_all (\<lambda>n. True) False)\<lparr>stopped := True\<rparr>)"
  by (simp add: start_def stop_def PyTracer_init_def PyTracer_trace_def)

text \<open>
  C7, as amended. \<open>stop()\<close>, on whatever thread, changes nothing of the tracer but the
  flag \<open>stopped\<close>, and every event delivered afterwards, one or many, leaves the whole
  tracer (data and dispatch state) as it is. With the threading module configured,
  \<open>stop()\<close> on a thread other than the one \<open>start()\<close> recorded does nothing else: no
  trace function of any thread is touched and \<open>warn\<close> is not called. Otherwise (no
  threading module, or the recorded thread) \<open>stop()\<close> goes on to the warn check and
  to \<open>sys.settrace(None)\<close> for the thread it runs on. In either case the trace
  function registered for the starting thread stays in place when \<open>stop()\<close> runs on
  another thread.
\<close>

theorem stop_makes_events_noops:
  "fst (stop cur (self, sys)) = self\<lparr>stopped := True\<rparr> \<and>
   PyTracer_trace frame event co (fst (stop cur (self, sys))) =
     Inr (NoHook, fst (stop cur (self, sys))) \<and>
   run evs (fst (stop cur (self, sys))) = Inr (fst (stop cur (self, sys))) \<and>
   (threading self \<and> thread self \<noteq> Some cur \<longrightarrow> snd (stop cur (self, sys)) = sys) \<and>
   (\<not> (threading self \<and> thread self \<noteq> Some cur) \<longrightarrow>
      snd (stop cur (self, sys)) =
        (if has_gettrace sys \<and> warn self \<and> settrace sys cur \<noteq> SelfTrace
         then sys\<lparr>warned := warned sys @ [settrace sys cur]\<rparr> else sys)
        \<lparr>settrace := (settrace sys)(cur := NoHook)\<rparr>) \<and>
   (cur \<noteq> t0 \<longrightarrow> threading self \<longrightarrow>
      stop cur (snd (start t0 (self, sys))) =
        ((fst (snd (start t0 (self, sys))))\<lparr>stopped := True\<rparr>,
         snd (snd (start t0 (self, sys))))) \<and>
   (cur \<noteq> t0 \<longrightarrow> settrace (snd (stop cur (snd (start t0 (self, sys))))) t0 = SelfTrace)"
  by (auto simp: stop_def start_def run_stopped trace_stopped)

theorem stop_makes_events_noops_witness:
  "(1::nat) \<noteq> 0 \<and>
   threading ((PyTracer_init trace_all (\<lambda>n. True) False)\<lparr>threading := True\<rparr>) \<and>
   stop 1 (snd (start 0
      ((PyTracer_init trace_all (\<lambda>n. True) False)\<lparr>threading := True\<rparr>, sys_other))) =
     ((PyTracer_init trace_all (\<lambda>n. True) False)
        \<lparr>threading := True, thread := Some 0, stopped := True\<rparr>,
      sys_other\<lparr>settrace := (settrace sys_other)(0 := SelfTrace)\<rparr>) \<and>
   \<not> threading warning_tracer \<and>
   fst (stop 1 (snd (start 0 (warning_tracer, sys_other)))) =
     warning_tracer\<lparr>stopped := True\<rparr> \<and>
   settrace (snd (stop 1 (snd (start 0 (warning_tracer, sys_other))))) 0 = SelfTrace \<and>
   settrace (snd (stop 1 (snd (start 0 (warning_tracer, sys_other))))) 1 = NoHook \<and>
   run (call_f 2) (fst (stop 1 (snd (start 0 (warning_tracer, sys_other))))) =
     Inr (warning_tracer\<lparr>stopped := True\<rparr>)"
  using stop_makes_events_noops
          [of 1 "(PyTracer_init trace_all (\<lambda>n. True) False)\<lparr>threading := True\<rparr>" sys_other
              "in_main 1" Line 0 "[]" 0]
        stop_makes_events_noops
          [of 1 "fst (snd (start 0 (warning_tracer, sys_other)))"
              "snd (snd (start 0 (warning_tracer, sys_other)))" "in_main 1" Line 0 "call_f 2" 0]
  by (simp add: start_def stop_def PyTracer_init_def warning_tracer_def sys_other_def sys0_def)

text \<open>
  C7 as stated fails without the threading module (the default of \<open>__init__\<close>): the
  tracer is started on thread 0 and stopped on thread 1, where another trace
  function is installed. \<open>stop()\<close> does not return early: it reports that trace
  function through \<open>warn\<close> and removes it with \<open>sys.settrace(None)\<close>, which is more
  than setting the flag.
\<close>

theorem stop_without_threading_unhooks_caller:
  "\<not> threading warning_tracer \<and>
   settrace (snd (snd (start 0 (warning_tracer, sys_other)))) 1 = OtherHook 5 \<and>
   warned (snd (snd (start 0 (warning_tracer, sys_other)))) = [] \<and>
   settrace (snd (stop 1 (snd (start 0 (warning_tracer, sys_other))))) 1 = NoHook \<and>
   warned (snd (stop 1 (snd (start 0 (warning_tracer, sys_other))))) = [OtherHook 5]"
  by (simp add: start_def stop_def PyTracer_init_def warning_tracer_def sys_other_def sys0_def)

subsection \<open>Single events\<close>

text \<open>
  C4, as amended. A line event handled by a running tracer whose \<open>cur_file_dict\<close> is
  \<open>None\<close>, with no skipped return to make up for on this frame, leaves the data, the
  plugin data, the cache, the stacks, the active plugin and \<open>cur_file_dict\<close> as they
  are. It still sets \<open>last_line\<close> to the last line of the statement (unless the
  statement's first line is -1) and drops a pending exception marker.
\<close>

theorem line_event_when_not_tracing:
  assumes "\<not> stopped self" and "cur_file_dict self = PyNone"
    and "last_exc_back self \<noteq> Some (frame_id frame)"
  shows "PyTracer_trace frame Line co self =
           Inr (SelfTrace,
                self\<lparr>last_exc_back := None,
                     last_line := (if fst (line_span self frame) = - 1 then last_line self
                                   else LineNo (snd (line_span self frame)))\<rparr>)"
  using assms
  by (simp add: PyTracer_trace_def dispatch_def missed_return_no_match on_line_def line_span_def
           split: prod.splits)

theorem line_event_when_not_tracing_witness:
  "\<not> stopped untraced \<and> cur_file_dict untraced = PyNone \<and>
   last_exc_back untraced \<noteq> Some (frame_id (in_f 2 10)) \<and>
   PyTracer_trace (in_f 2 10) Line 0 untraced =
     Inr (SelfTrace, untraced\<lparr>last_line := LineNo 10\<rparr>)"
  using line_event_when_not_tracing [of untraced "in_f 2 10" 0]
  by (simp add: input_defs trace_defs)

text \<open>
  C4 as stated fails: in a scope that is not traced (\<open>cur_file_dict\<close> is \<open>None\<close>,
  \<open>last_line\<close> is -1 after the call) the line event of line 10 changes \<open>last_line\<close>
  to 10.
\<close>

theorem line_event_when_not_tracing_moves_last_line:
  "cur_file_dict untraced = PyNone \<and> last_line untraced = LineNo (- 1) \<and>
   map_sum id (\<lambda>r. last_line (snd r)) (PyTracer_trace (in_f 2 10) Line 0 untraced) =
     Inr (LineNo 10)"
  by (simp add: input_defs trace_defs)

text \<open>
  C2, the code at the failing input. In arc mode, a call into \<open>f.py\<close> (traced, first
  seen here, so its dictionary is created empty) followed at once by the return of
  that frame (or by an exception event and the return) records nothing: the dictionary
  of \<open>f.py\<close> is still empty, the arc \<open>(-1, -10)\<close> is missing. The condition
  \<open>self.cur_file_dict\<close> of the return handler is false for an empty dictionary, where
  the line handler asks \<open>is not None\<close>.
\<close>

theorem return_from_empty_dict_records_no_arc:
  "cur_file_dict (on_call (in_f 2 10) 0 (PyTracer_init trace_all (\<lambda>n. True) True)) =
     Obj ''f.py'' \<and>
   last_line (on_call (in_f 2 10) 0 (PyTracer_init trace_all (\<lambda>n. True) True)) =
     LineNo (- 1) \<and>
   recorded (run [(in_f 2 10, Call, 0), (in_f 2 10, Return, 0)]
               (PyTracer_init trace_all (\<lambda>n. True) True)) ''f.py'' = Inr (Some {}) \<and>
   recorded (run [(in_f 2 10, Call, 0), (in_f 2 10, Exception, 0), (in_f 2 10, Return, 0)]
               (PyTracer_init trace_all (\<lambda>n. True) True)) ''f.py'' = Inr (Some {})"
  by (simp add: input_defs trace_defs)

text \<open>
  C8. The function \<open>f\<close> with lines 10, 11, 12 (its code starting at line 10), called
  twice: in line mode the set recorded for \<open>f.py\<close> is \<open>{10, 11, 12}\<close>; in arc mode it is
  \<open>{(-1,10), (10,11), (11,12), (12,-10)}\<close> after the first call and the same after
  the second. This holds for the events of \<open>f\<close> alone and when they come from a traced
  module that calls \<open>f\<close> from its line 5.
\<close>

theorem f_called_twice:
  "recorded (run (call_f 2 @ call_f 3) (PyTracer_init trace_all (\<lambda>n. True) False)) ''f.py'' =
     Inr (Some {LineKey 10, LineKey 11, LineKey 12}) \<and>
   recorded (run (call_f 2) (PyTracer_init trace_all (\<lambda>n. True) True)) ''f.py'' =
     Inr (Some {ArcKey (- 1) 10, ArcKey 10 11, ArcKey 11 12, ArcKey 12 (- 10)}) \<and>
   recorded (run (call_f 2 @ call_f 3) (PyTracer_init trace_all (\<lambda>n. True) True)) ''f.py'' =
     Inr (Some {ArcKey (- 1) 10, ArcKey 10 11, ArcKey 11 12, ArcKey 12 (- 10)}) \<and>
   recorded (run (main_calls_f 2) (PyTracer_init trace_all (\<lambda>n. True) False)) ''f.py'' =
     Inr (Some {LineKey 10, LineKey 11, LineKey 12}) \<and>
   recorded (run (main_calls_f 1) (PyTracer_init trace_all (\<lambda>n. True) True)) ''f.py'' =
     Inr (Some {ArcKey (- 1) 10, ArcKey 10 11, ArcKey 11 12, ArcKey 12 (- 10)}) \<and>
   recorded (run (main_calls_f 2) (PyTracer_init trace_all (\<lambda>n. True) True)) ''f.py'' =
     Inr (Some {ArcKey (- 1) 10, ArcKey 10 11, ArcKey 11 12, ArcKey 12 (- 10)})"
  by (simp add: input_defs trace_defs insert_commute upt_rec)

subsection \<open>Skipped returns\<close>

text \<open>A run of two sequences is the run of the second after the first.\<close>

lemma run_append:
  "run (xs @ ys) self = (case run xs self of Inl e \<Rightarrow> Inl e | Inr self1 \<Rightarrow> run ys self1)"
  by (induction xs arbitrary: self) (auto split: sum.splits)

subsection \<open>last_coroutine is never read\<close>

lemma lc_select: "select_stack c (self\<lparr>last_coroutine := x\<rparr>) = (select_stack c self)\<lparr>last_coroutine := x\<rparr>"
  by (simp add: select_stack_def split: option.splits)

lemma lc_stack_list: "stack_list (self\<lparr>last_coroutine := x\<rparr>) = stack_list self"
  by (simp add: stack_list_def split: stack_ref.splits option.splits)

lemma lc_stack_assign: "stack_assign xs (self\<lparr>last_coroutine := x\<rparr>) = (stack_assign xs self)\<lparr>last_coroutine := x\<rparr>"
  by (simp add: stack_assign_def split: stack_ref.splits)

lemma lc_push: "push_context (self\<lparr>last_coroutine := x\<rparr>) = (push_context self)\<lparr>last_coroutine := x\<rparr>"
  by (simp add: push_context_def lc_stack_list lc_stack_assign)

lemma lc_pop: "pop_context (self\<lparr>last_coroutine := x\<rparr>) = map_sum id (\<lambda>s. s\<lparr>last_coroutine := x\<rparr>) (pop_context self)"
  by (simp add: pop_context_def lc_stack_list lc_stack_assign split: prod.splits)

lemma lc_file_dict: "file_dict (self\<lparr>last_coroutine := x\<rparr>) = file_dict self"
  by (rule ext) (simp add: file_dict_def)

lemma lc_dict_store: "dict_store name k (self\<lparr>last_coroutine := x\<rparr>) = (dict_store name k self)\<lparr>last_coroutine := x\<rparr>"
  by (simp add: dict_store_def lc_file_dict)

lemma lc_true: "cur_file_dict_true (self\<lparr>last_coroutine := x\<rparr>) = cur_file_dict_true self"
  by (simp add: cur_file_dict_true_def lc_file_dict split: pyval.splits)

lemma lc_store_arc: "store_arc n (self\<lparr>last_coroutine := x\<rparr>) = map_sum id (\<lambda>s. s\<lparr>last_coroutine := x\<rparr>) (store_arc n self)"
  by (simp add: store_arc_def lc_dict_store split: pyval.splits lastline.splits)

lemma store_arc_coroutine_id_func:
  "store_arc n self = Inr s \<Longrightarrow> coroutine_id_func s = coroutine_id_func self"
  by (auto simp: store_arc_def dict_store_def split: pyval.splits lastline.splits)

lemma lc_lookup_disp:
  "lookup_disp frame (self\<lparr>last_coroutine := x\<rparr>) =
     (fst (lookup_disp frame self), (snd (lookup_disp frame self))\<lparr>last_coroutine := x\<rparr>)"
  by (simp add: lookup_disp_def split: option.splits)

lemma lc_tracename_of: "tracename_of (self\<lparr>last_coroutine := x\<rparr>) disp frame = tracename_of self disp frame"
  by (simp add: tracename_of_def split: option.splits)

lemma lc_enter_file:
  "enter_file disp t (self\<lparr>last_coroutine := x\<rparr>) = (enter_file disp t self)\<lparr>last_coroutine := x\<rparr>"
  by (simp add: enter_file_def split: option.splits)


lemma lc_enter_file':
  "enter_file disp t (self\<lparr>last_coroutine := x, plugin := p, cur_file_dict := c\<rparr>) =
     (enter_file disp t (self\<lparr>plugin := p, cur_file_dict := c\<rparr>))\<lparr>last_coroutine := x\<rparr>"
  by (simp add: enter_file_def split: option.splits)

lemma lc_on_call:
  "on_call frame co (self\<lparr>last_coroutine := x\<rparr>) =
     (on_call frame co self)\<lparr>last_coroutine := (if coroutine_id_func self then Some co else x)\<rparr>"
  by (cases "coroutine_id_func self")
     (simp_all add: on_call_def lc_select lc_push lc_lookup_disp lc_tracename_of lc_enter_file'
        split: prod.splits)

lemma lc_foldl:
  "foldl (\<lambda>s lineno. dict_store name (LineKey lineno) s) (self\<lparr>last_coroutine := x\<rparr>) ls =
     (foldl (\<lambda>s lineno. dict_store name (LineKey lineno) s) self ls)\<lparr>last_coroutine := x\<rparr>"
  by (induction ls arbitrary: self) (simp_all add: lc_dict_store)

lemma lc_line_span: "line_span (self\<lparr>last_coroutine := x\<rparr>) frame = line_span self frame"
  by (simp add: line_span_def)

lemma lc_on_line:
  "on_line frame (self\<lparr>last_coroutine := x\<rparr>) =
     map_sum id (\<lambda>s. s\<lparr>last_coroutine := x\<rparr>) (on_line frame self)"
proof (cases "line_span self frame")
  case (Pair a b)
  show ?thesis
  proof (cases "cur_file_dict self")
    case EmptyList
    then show ?thesis using Pair by (simp add: on_line_def lc_line_span)
  next
    case PyNone
    then show ?thesis using Pair by (simp add: on_line_def lc_line_span)
  next
    case (Obj name)
    then show ?thesis using Pair
      by (cases "store_arc a self") (simp_all add: on_line_def lc_line_span lc_store_arc lc_foldl)
  qed
qed

lemma lc_on_exception:
  "on_exception frame (self\<lparr>last_coroutine := x\<rparr>) = (on_exception frame self)\<lparr>last_coroutine := x\<rparr>"
  by (simp add: on_exception_def)

lemma forget_update [simp]: "forget_coroutine (self\<lparr>last_coroutine := x\<rparr>) = forget_coroutine self"
  by (simp add: forget_coroutine_def)

lemma lc_on_return:
  "map_sum id forget_coroutine (on_return frame co (self\<lparr>last_coroutine := x\<rparr>)) =
     map_sum id forget_coroutine (on_return frame co self)"
proof -
  have pop: "map_sum id forget_coroutine (pop_context (t\<lparr>last_coroutine := y\<rparr>)) =
             map_sum id forget_coroutine (pop_context t)" for t y
    by (cases "pop_context t") (simp_all add: lc_pop)
  have sel: "map_sum id forget_coroutine
               (pop_context (if coroutine_id_func t
                  then (select_stack co (t\<lparr>last_coroutine := y\<rparr>))\<lparr>last_coroutine := Some co\<rparr>
                  else t\<lparr>last_coroutine := y\<rparr>)) =
             map_sum id forget_coroutine
               (pop_context (if coroutine_id_func t
                  then (select_stack co t)\<lparr>last_coroutine := Some co\<rparr> else t))" for t y
    by (cases "coroutine_id_func t") (simp_all add: lc_select pop)
  show ?thesis
  proof (cases "arcs self \<and> cur_file_dict_true self")
    case False
    then show ?thesis using sel [of self x] by (auto simp add: on_return_def lc_true)
  next
    case True
    show ?thesis
    proof (cases "store_arc (- co_firstlineno frame) self")
      case (Inl e)
      then show ?thesis using True by (simp add: on_return_def lc_true lc_store_arc)
    next
      case (Inr t)
      then show ?thesis using True sel [of t x] by (simp add: on_return_def lc_true lc_store_arc)
    qed
  qed
qed

lemma lc_dispatch:
  "map_sum id forget_coroutine (dispatch frame event co (self\<lparr>last_coroutine := x\<rparr>)) =
     map_sum id forget_coroutine (dispatch frame event co self)"
proof (cases event)
  case Call
  then show ?thesis by (simp add: dispatch_def lc_on_call)
next
  case Line
  then show ?thesis by (cases "on_line frame self") (simp_all add: dispatch_def lc_on_line)
next
  case Return
  then show ?thesis by (simp add: dispatch_def lc_on_return)
next
  case Exception
  then show ?thesis by (simp add: dispatch_def lc_on_exception)
next
  case OtherEvent
  then show ?thesis by (simp add: dispatch_def)
qed


subsection \<open>The marker of a pending exception\<close>

lemma leb_select:
  "select_stack c (self\<lparr>last_exc_back := x\<rparr>) = (select_stack c self)\<lparr>last_exc_back := x\<rparr>"
  by (simp add: select_stack_def split: option.splits)

lemma leb_stack_list: "stack_list (self\<lparr>last_exc_back := x\<rparr>) = stack_list self"
  by (simp add: stack_list_def split: stack_ref.splits option.splits)

lemma leb_stack_assign:
  "stack_assign xs (self\<lparr>last_exc_back := x\<rparr>) = (stack_assign xs self)\<lparr>last_exc_back := x\<rparr>"
  by (simp add: stack_assign_def split: stack_ref.splits)

lemma leb_pop:
  "pop_context (self\<lparr>last_exc_back := x\<rparr>) =
     map_sum id (\<lambda>s. s\<lparr>last_exc_back := x\<rparr>) (pop_context self)"
  by (simp add: pop_context_def leb_stack_list leb_stack_assign split: prod.splits)

lemma leb_file_dict: "file_dict (self\<lparr>last_exc_back := x\<rparr>) = file_dict self"
  by (rule ext) (simp add: file_dict_def)

lemma leb_dict_store:
  "dict_store name k (self\<lparr>last_exc_back := x\<rparr>) = (dict_store name k self)\<lparr>last_exc_back := x\<rparr>"
  by (simp add: dict_store_def leb_file_dict)

lemma leb_true: "cur_file_dict_true (self\<lparr>last_exc_back := x\<rparr>) = cur_file_dict_true self"
  by (simp add: cur_file_dict_true_def leb_file_dict split: pyval.splits)

lemma leb_store_arc:
  "store_arc n (self\<lparr>last_exc_back := x\<rparr>) =
     map_sum id (\<lambda>s. s\<lparr>last_exc_back := x\<rparr>) (store_arc n self)"
  by (simp add: store_arc_def leb_dict_store split: pyval.splits lastline.splits)

lemma forget_eqD:
  "forget_coroutine u = forget_coroutine u' \<Longrightarrow> u' = u\<lparr>last_coroutine := last_coroutine u'\<rparr>"
  by (cases u, cases u') (simp add: forget_coroutine_def)

lemma forget_leb: "forget_coroutine (s\<lparr>last_exc_back := x\<rparr>) = (forget_coroutine s)\<lparr>last_exc_back := x\<rparr>"
  by (simp add: forget_coroutine_def)

lemma replay_tail:
  "map_sum id forget_coroutine
     (case pop_context (if coroutine_id_func t then select_stack co t else t) of
        Inl e \<Rightarrow> Inl e | Inr u \<Rightarrow> Inr (u\<lparr>last_exc_back := None\<rparr>)) =
   map_sum id forget_coroutine
     (pop_context (if coroutine_id_func t
        then (select_stack co (t\<lparr>last_exc_back := None\<rparr>))\<lparr>last_coroutine := Some co\<rparr>
        else t\<lparr>last_exc_back := None\<rparr>))"
proof (cases "coroutine_id_func t")
  case True
  then show ?thesis
    by (cases "pop_context (select_stack co t)")
       (simp_all add: leb_select lc_pop leb_pop forget_leb)
next
  case False
  then show ?thesis
    by (cases "pop_context t") (simp_all add: leb_pop)
qed

lemma missed_return_replays_return:
  assumes "last_exc_back self = Some (frame_id f)"
    and "last_exc_firstlineno self = co_firstlineno g"
  shows "map_sum id forget_coroutine (missed_return f co self) =
         map_sum id forget_coroutine (on_return g co (self\<lparr>last_exc_back := None\<rparr>))"
proof (cases "arcs self \<and> cur_file_dict_true self")
  case False
  then show ?thesis using assms replay_tail [of self co]
    by (auto simp add: missed_return_def on_return_def leb_true)
next
  case True
  show ?thesis
  proof (cases "store_arc (- co_firstlineno g) self")
    case (Inl e)
    then show ?thesis using True assms
      by (simp add: missed_return_def on_return_def leb_true leb_store_arc)
  next
    case (Inr t)
    then show ?thesis using True assms replay_tail [of t co]
      by (simp add: missed_return_def on_return_def leb_true leb_store_arc)
  qed
qed


subsection \<open>What the handlers never change\<close>

lemma settings_select [simp]: "settings (select_stack c self) = settings self"
  by (simp add: settings_def select_stack_def)

lemma settings_stack_assign [simp]: "settings (stack_assign xs self) = settings self"
  by (simp add: settings_def stack_assign_def split: stack_ref.splits)

lemma settings_push [simp]: "settings (push_context self) = settings self"
  by (simp add: push_context_def)

lemma settings_pop: "pop_context self = Inr s \<Longrightarrow> settings s = settings self"
proof -
  have upd: "settings (t\<lparr>plugin := p, cur_file_dict := d, last_line := l\<rparr>) = settings t" for t p d l
    by (simp add: settings_def)
  assume "pop_context self = Inr s"
  then show ?thesis
    by (auto simp add: pop_context_def upd split: if_splits prod.splits)
qed

lemma settings_dict_store [simp]: "settings (dict_store name k self) = settings self"
  by (simp add: settings_def dict_store_def)

lemma settings_store_arc: "store_arc n self = Inr s \<Longrightarrow> settings s = settings self"
  by (auto simp add: store_arc_def split: pyval.splits lastline.splits)

lemma settings_last_coroutine [simp]: "settings (self\<lparr>last_coroutine := x\<rparr>) = settings self"
  by (simp add: settings_def)

lemma settings_last_exc_back [simp]: "settings (self\<lparr>last_exc_back := x\<rparr>) = settings self"
  by (simp add: settings_def)

lemma settings_last_line [simp]: "settings (self\<lparr>last_line := x\<rparr>) = settings self"
  by (simp add: settings_def)

lemma settings_missed_return:
  "missed_return frame co self = Inr s \<Longrightarrow> settings s = settings self"
  by (auto simp add: missed_return_def split: option.splits if_splits sum.splits
           dest!: settings_pop settings_store_arc)

lemma settings_lookup_disp [simp]: "settings (snd (lookup_disp frame self)) = settings self"
  by (simp add: lookup_disp_def settings_def split: option.splits)

lemma settings_enter_file:
  "settings (enter_file disp t self) = settings self"
  by (simp add: enter_file_def settings_def split: option.splits)

lemma settings_on_call [simp]: "settings (on_call frame co self) = settings self"
proof -
  have upd: "settings (t\<lparr>plugin := p, cur_file_dict := d\<rparr>) = settings t" for t p d
    by (simp add: settings_def)
  show ?thesis
    by (simp add: on_call_def split_beta settings_enter_file upd)
qed

lemma settings_foldl [simp]:
  "settings (foldl (\<lambda>s lineno. dict_store name (LineKey lineno) s) self ls) = settings self"
  by (induction ls arbitrary: self) simp_all

lemma settings_on_line: "on_line frame self = Inr s \<Longrightarrow> settings s = settings self"
  by (auto simp add: on_line_def split: prod.splits if_splits pyval.splits sum.splits
           dest!: settings_store_arc)

lemma settings_on_return: "on_return frame co self = Inr s \<Longrightarrow> settings s = settings self"
  by (auto simp add: on_return_def split: if_splits sum.splits
           dest!: settings_pop settings_store_arc)

lemma settings_on_exception [simp]: "settings (on_exception frame self) = settings self"
  by (simp add: on_exception_def settings_def)

lemma settings_dispatch: "dispatch frame event co self = Inr s \<Longrightarrow> settings s = settings self"
  by (cases event) (auto simp add: dispatch_def dest: settings_on_line settings_on_return)

lemma settings_trace:
  "PyTracer_trace frame event co self = Inr (r, s) \<Longrightarrow> settings s = settings self"
  by (auto simp add: PyTracer_trace_def split: if_splits sum.splits
           dest!: settings_missed_return settings_dispatch)

lemma settings_run: "run evs self = Inr s \<Longrightarrow> settings s = settings self"
  by (induction evs arbitrary: self)
     (auto split: sum.splits prod.splits dest!: settings_trace)


lemma marker_select [simp]: "last_exc_back (select_stack c self) = last_exc_back self"
  by (simp add: select_stack_def)

lemma marker_stack_assign [simp]: "last_exc_back (stack_assign xs self) = last_exc_back self"
  by (simp add: stack_assign_def split: stack_ref.splits)

lemma marker_push [simp]: "last_exc_back (push_context self) = last_exc_back self"
  by (simp add: push_context_def)

lemma marker_pop: "pop_context self = Inr s \<Longrightarrow> last_exc_back s = last_exc_back self"
  by (auto simp add: pop_context_def split: if_splits prod.splits)

lemma marker_dict_store [simp]: "last_exc_back (dict_store name k self) = last_exc_back self"
  by (simp add: dict_store_def)

lemma marker_store_arc: "store_arc n self = Inr s \<Longrightarrow> last_exc_back s = last_exc_back self"
  by (auto simp add: store_arc_def split: pyval.splits lastline.splits)

lemma marker_missed_return: "missed_return frame co self = Inr s \<Longrightarrow> last_exc_back s = None"
  by (auto simp add: missed_return_def split: option.splits if_splits sum.splits)

lemma marker_lookup_disp [simp]: "last_exc_back (snd (lookup_disp frame self)) = last_exc_back self"
  by (simp add: lookup_disp_def split: option.splits)

lemma marker_enter_file [simp]: "last_exc_back (enter_file disp t self) = last_exc_back self"
  by (simp add: enter_file_def split: option.splits)

lemma marker_on_call [simp]: "last_exc_back (on_call frame co self) = last_exc_back self"
  by (simp add: on_call_def split_beta)

lemma marker_foldl [simp]:
  "last_exc_back (foldl (\<lambda>s lineno. dict_store name (LineKey lineno) s) self ls) = last_exc_back self"
  by (induction ls arbitrary: self) simp_all

lemma marker_on_line: "on_line frame self = Inr s \<Longrightarrow> last_exc_back s = last_exc_back self"
  by (auto simp add: on_line_def split: prod.splits if_splits pyval.splits sum.splits
           dest!: marker_store_arc)

lemma marker_on_return: "on_return frame co self = Inr s \<Longrightarrow> last_exc_back s = last_exc_back self"
  by (auto simp add: on_return_def split: if_splits sum.splits
           dest!: marker_pop marker_store_arc)

lemma marker_dispatch:
  "dispatch frame event co self = Inr s \<Longrightarrow>
   last_exc_back s = (if event = Exception then f_back frame else last_exc_back self)"
  by (cases event)
     (auto simp add: dispatch_def on_exception_def dest: marker_on_line marker_on_return)

lemma marker_trace:
  "\<not> stopped self \<Longrightarrow> PyTracer_trace frame event co self = Inr (r, s) \<Longrightarrow>
   last_exc_back s = (if event = Exception then f_back frame else None)"
  by (auto simp add: PyTracer_trace_def split: sum.splits
           dest!: marker_missed_return marker_dispatch)

lemma run_one:
  "run [(frame, event, co)] self = map_sum id snd (PyTracer_trace frame event co self)"
  by (auto split: sum.splits)

lemma stopped_settings: "settings s = settings t \<Longrightarrow> stopped s = stopped t"
  by (simp add: settings_def)

lemma trace_no_marker:
  "\<not> stopped self \<Longrightarrow> last_exc_back self = None \<Longrightarrow>
   PyTracer_trace frame event co self =
     (case dispatch frame event co self of Inl e \<Rightarrow> Inl e | Inr s \<Rightarrow> Inr (SelfTrace, s))"
  by (simp add: PyTracer_trace_def missed_return_def)

lemma after_exception:
  assumes run: "\<not> stopped s1"
    and bk: "last_exc_back s1 = Some (frame_id f)"
    and first: "last_exc_firstlineno s1 = co_firstlineno g"
    and ne: "frame_id g \<noteq> frame_id f"
  shows "map_sum id forget_coroutine (run [(f, event, co)] s1) =
         map_sum id forget_coroutine (run [(g, Return, co), (f, event, co)] s1)"
proof -
  let ?R = "on_return g co (s1\<lparr>last_exc_back := None\<rparr>)"
  let ?M = "missed_return f co s1"
  have MR: "map_sum id forget_coroutine ?M = map_sum id forget_coroutine ?R"
    using bk first by (rule missed_return_replays_return)
  have ret: "PyTracer_trace g Return co s1 =
               (case ?R of Inl e \<Rightarrow> Inl e | Inr u \<Rightarrow> Inr (SelfTrace, u))"
    using run bk ne
    by (simp add: PyTracer_trace_def missed_return_no_match dispatch_def)
  show ?thesis
  proof (cases ?R)
    case (Inl e)
    with MR have "?M = Inl e" by (cases ?M) simp_all
    then show ?thesis using Inl ret run by (simp add: PyTracer_trace_def)
  next
    case (Inr u')
    with MR obtain u where M: "?M = Inr u" and fu: "forget_coroutine u = forget_coroutine u'"
      by (cases ?M) simp_all
    have u': "u' = u\<lparr>last_coroutine := last_coroutine u'\<rparr>"
      using fu by (rule forget_eqD)
    have "settings u' = settings s1"
      using settings_on_return [OF Inr] by simp
    then have run': "\<not> stopped u'" using run by (simp add: settings_def)
    have mark': "last_exc_back u' = None"
      using marker_on_return [OF Inr] by simp
    have disp: "map_sum id forget_coroutine (dispatch f event co u') =
                map_sum id forget_coroutine (dispatch f event co u)"
      by (subst u') (rule lc_dispatch)
    have lhs: "run [(f, event, co)] s1 = dispatch f event co u"
      using run M by (cases "dispatch f event co u") (simp_all add: PyTracer_trace_def)
    have rhs: "run [(g, Return, co), (f, event, co)] s1 = dispatch f event co u'"
      using ret Inr trace_no_marker [OF run' mark', of f event co]
      by (cases "dispatch f event co u'") simp_all
    show ?thesis using disp lhs rhs by simp
  qed
qed

lemma skipped_return_from:
  assumes bk: "f_back g = Some (frame_id f)" and ne: "frame_id g \<noteq> frame_id f"
  shows "map_sum id forget_coroutine (run [(g, Exception, c1), (f, event, co)] s) =
         map_sum id forget_coroutine (run [(g, Exception, c1), (g, Return, co), (f, event, co)] s)"
proof (cases "stopped s")
  case True
  then show ?thesis by (simp add: trace_stopped)
next
  case False
  show ?thesis
  proof (cases "missed_return g c1 s")
    case (Inl e)
    then show ?thesis using False by (simp add: PyTracer_trace_def)
  next
    case (Inr sp)
    let ?s1 = "on_exception g sp"
    have tr: "PyTracer_trace g Exception c1 s = Inr (SelfTrace, ?s1)"
      using False Inr by (simp add: PyTracer_trace_def dispatch_def)
    have "settings ?s1 = settings s"
      using settings_missed_return [OF Inr] by simp
    then have run: "\<not> stopped ?s1" using False by (simp add: settings_def)
    have b: "last_exc_back ?s1 = Some (frame_id f)" using bk by (simp add: on_exception_def)
    have l: "last_exc_firstlineno ?s1 = co_firstlineno g" by (simp add: on_exception_def)
    have "run ((g, Exception, c1) # rest) s = run rest ?s1" for rest
      using tr by simp
    then show ?thesis using after_exception [OF run b l ne] by simp
  qed
qed

text \<open>
  C3. Let \<open>g\<close> be a frame whose caller is the frame \<open>f\<close>. After any events (the call
  of \<open>g\<close> among them), an exception event of \<open>g\<close> followed directly by an event of
  \<open>f\<close> leaves the tracer as the same events with the return event of \<open>g\<close> delivered
  in between do: the same data, stacks, active plugin and dictionary, \<open>last_line\<close>,
  cache, or the same exception raised; only \<open>last_coroutine\<close>, which nothing reads, is
  left out of the comparison. The return event is taken in the coroutine of the event
  that follows. Whatever the event, the marker \<open>last_exc_back\<close> that was pending before
  it is gone afterwards: the marker is \<open>None\<close>, or the one the event itself set when it
  is an exception event.
\<close>

theorem skipped_return_is_replayed:
  assumes "f_back g = Some (frame_id f)" and "frame_id g \<noteq> frame_id f"
  shows "map_sum id forget_coroutine
           (run (before @ [(g, Exception, c1), (f, event, co)]) self) =
         map_sum id forget_coroutine
           (run (before @ [(g, Exception, c1), (g, Return, co), (f, event, co)]) self) \<and>
         (\<not> stopped self \<longrightarrow> PyTracer_trace frame ev c self = Inr (r, self') \<longrightarrow>
            last_exc_back self' = (if ev = Exception then f_back frame else None))"
  using skipped_return_from [OF assms, of c1 event co] marker_trace [of self frame ev c r self']
  by (cases "run before self") (simp_all add: run_append)

theorem skipped_return_is_replayed_witness:
  "f_back (in_f 2 10) = Some (frame_id (in_main 5)) \<and>
   frame_id (in_f 2 10) \<noteq> frame_id (in_main 5) \<and>
   recorded (run ([(in_main 1, Call, 0), (in_main 5, Line, 0), (in_f 2 10, Call, 0),
                   (in_f 2 10, Line, 0)] @
                  [(in_f 2 10, Exception, 0), (in_main 5, Exception, 0)])
               (PyTracer_init trace_all (\<lambda>n. True) True)) ''f.py'' =
     Inr (Some {ArcKey (- 1) 10, ArcKey 10 (- 10)}) \<and>
   map_sum id forget_coroutine
     (run ([(in_main 1, Call, 0), (in_main 5, Line, 0), (in_f 2 10, Call, 0),
            (in_f 2 10, Line, 0)] @
           [(in_f 2 10, Exception, 0), (in_main 5, Exception, 0)])
        (PyTracer_init trace_all (\<lambda>n. True) True)) =
   map_sum id forget_coroutine
     (run ([(in_main 1, Call, 0), (in_main 5, Line, 0), (in_f 2 10, Call, 0),
            (in_f 2 10, Line, 0)] @
           [(in_f 2 10, Exception, 0), (in_f 2 10, Return, 0), (in_main 5, Exception, 0)])
        (PyTracer_init trace_all (\<lambda>n. True) True)) \<and>
   \<not> stopped (PyTracer_init trace_all (\<lambda>n. True) True) \<and>
   map_sum id (\<lambda>r. last_exc_back (snd r))
     (PyTracer_trace (in_main 5) Line 0
        ((PyTracer_init trace_all (\<lambda>n. True) True)
           \<lparr>last_exc_back := Some 7, cur_file_dict := PyNone\<rparr>)) = Inr None"
  using skipped_return_is_replayed
          [of "in_f 2 10" "in_main 5"
              "[(in_main 1, Call, 0), (in_main 5, Line, 0), (in_f 2 10, Call, 0),
                (in_f 2 10, Line, 0)]" 0 Exception 0
              "PyTracer_init trace_all (\<lambda>n. True) True"]
  by (simp add: input_defs trace_defs insert_commute)

subsection \<open>The cache of dispositions\<close>

lemma oracle_select [simp]: "oracle_view (select_stack c self) = oracle_view self"
  by (simp add: oracle_view_def select_stack_def)

lemma oracle_stack_assign [simp]: "oracle_view (stack_assign xs self) = oracle_view self"
  by (simp add: oracle_view_def stack_assign_def split: stack_ref.splits)

lemma oracle_push [simp]: "oracle_view (push_context self) = oracle_view self"
  by (simp add: push_context_def)

lemma oracle_pop: "pop_context self = Inr s \<Longrightarrow> oracle_view s = oracle_view self"
proof -
  have upd: "oracle_view (t\<lparr>plugin := p, cur_file_dict := d, last_line := l\<rparr>) = oracle_view t" for t p d l
    by (simp add: oracle_view_def)
  assume "pop_context self = Inr s"
  then show ?thesis
    by (auto simp add: pop_context_def upd split: if_splits prod.splits)
qed

lemma oracle_dict_store [simp]: "oracle_view (dict_store name k self) = oracle_view self"
  by (simp add: oracle_view_def dict_store_def)

lemma oracle_store_arc: "store_arc n self = Inr s \<Longrightarrow> oracle_view s = oracle_view self"
  by (auto simp add: store_arc_def split: pyval.splits lastline.splits)

lemma oracle_last_coroutine [simp]: "oracle_view (self\<lparr>last_coroutine := x\<rparr>) = oracle_view self"
  by (simp add: oracle_view_def)

lemma oracle_last_exc_back [simp]: "oracle_view (self\<lparr>last_exc_back := x\<rparr>) = oracle_view self"
  by (simp add: oracle_view_def)

lemma oracle_last_line [simp]: "oracle_view (self\<lparr>last_line := x\<rparr>) = oracle_view self"
  by (simp add: oracle_view_def)

lemma oracle_missed_return:
  "missed_return frame co self = Inr s \<Longrightarrow> oracle_view s = oracle_view self"
  by (auto simp add: missed_return_def split: option.splits if_splits sum.splits
           dest!: oracle_pop oracle_store_arc)

lemma oracle_enter_file: "oracle_view (enter_file disp t self) = oracle_view self"
  by (simp add: enter_file_def oracle_view_def split: option.splits)

lemma oracle_lookup_disp_hit:
  "should_trace_cache self (co_filename frame) = Some d \<Longrightarrow>
   oracle_view (snd (lookup_disp frame self)) = oracle_view self"
  by (simp add: lookup_disp_def oracle_view_def)

lemma oracle_lookup_disp_miss:
  "should_trace_cache self (co_filename frame) = None \<Longrightarrow>
   oracle_view (snd (lookup_disp frame self)) =
     ((should_trace_cache self)
        (co_filename frame \<mapsto> should_trace self (co_filename frame) frame),
      oracle_calls self @ [(co_filename frame, frame)])"
  by (simp add: lookup_disp_def oracle_view_def)

lemma oracle_on_call_lookup:
  "oracle_view (on_call frame co self) =
     oracle_view (snd (lookup_disp frame (push_context
          (if coroutine_id_func self then (select_stack co self)\<lparr>last_coroutine := Some co\<rparr>
           else self))))"
proof -
  have upd: "oracle_view (t\<lparr>plugin := p, cur_file_dict := d\<rparr>) = oracle_view t" for t p d
    by (simp add: oracle_view_def)
  show ?thesis
    by (simp add: on_call_def split_beta oracle_enter_file upd)
qed

lemma pushed_fields:
  "should_trace_cache (push_context
          (if coroutine_id_func self then (select_stack co self)\<lparr>last_coroutine := Some co\<rparr>
           else self)) = should_trace_cache self"
  "oracle_calls (push_context
          (if coroutine_id_func self then (select_stack co self)\<lparr>last_coroutine := Some co\<rparr>
           else self)) = oracle_calls self"
  "should_trace (push_context
          (if coroutine_id_func self then (select_stack co self)\<lparr>last_coroutine := Some co\<rparr>
           else self)) = should_trace self"
proof -
  let ?X = "push_context
          (if coroutine_id_func self then (select_stack co self)\<lparr>last_coroutine := Some co\<rparr>
           else self)"
  have "oracle_view ?X = oracle_view self" by simp
  then show "should_trace_cache ?X = should_trace_cache self"
    and "oracle_calls ?X = oracle_calls self"
    by (simp_all add: oracle_view_def)
  have "settings ?X = settings self" by simp
  then show "should_trace ?X = should_trace self"
    by (simp add: settings_def)
qed

lemma oracle_on_call_hit:
  assumes "should_trace_cache self (co_filename frame) = Some d"
  shows "oracle_view (on_call frame co self) = oracle_view self"
proof -
  have "oracle_view (on_call frame co self) = oracle_view (push_context
          (if coroutine_id_func self then (select_stack co self)\<lparr>last_coroutine := Some co\<rparr>
           else self))"
    unfolding oracle_on_call_lookup
    by (rule oracle_lookup_disp_hit [where d = d]) (simp only: pushed_fields assms)
  then show ?thesis by simp
qed

lemma oracle_on_call_miss:
  assumes "should_trace_cache self (co_filename frame) = None"
  shows "oracle_view (on_call frame co self) =
     ((should_trace_cache self)
        (co_filename frame \<mapsto> should_trace self (co_filename frame) frame),
      oracle_calls self @ [(co_filename frame, frame)])"
proof -
  have "should_trace_cache (push_context
          (if coroutine_id_func self then (select_stack co self)\<lparr>last_coroutine := Some co\<rparr>
           else self)) (co_filename frame) = None"
    by (simp only: pushed_fields assms)
  from oracle_lookup_disp_miss [OF this] show ?thesis
    unfolding oracle_on_call_lookup by (simp only: pushed_fields)
qed

lemma oracle_foldl [simp]:
  "oracle_view (foldl (\<lambda>s lineno. dict_store name (LineKey lineno) s) self ls) = oracle_view self"
  by (induction ls arbitrary: self) simp_all

lemma oracle_on_line: "on_line frame self = Inr s \<Longrightarrow> oracle_view s = oracle_view self"
  by (auto simp add: on_line_def split: prod.splits if_splits pyval.splits sum.splits
           dest!: oracle_store_arc)

lemma oracle_on_return: "on_return frame co self = Inr s \<Longrightarrow> oracle_view s = oracle_view self"
  by (auto simp add: on_return_def split: if_splits sum.splits
           dest!: oracle_pop oracle_store_arc)

lemma oracle_on_exception [simp]: "oracle_view (on_exception frame self) = oracle_view self"
  by (simp add: on_exception_def oracle_view_def)


lemma oracle_trace_other:
  assumes "\<not> stopped self" and "PyTracer_trace frame event co self = Inr (r, s)"
    and "event \<noteq> Call \<or> should_trace_cache self (co_filename frame) \<noteq> None"
  shows "oracle_view s = oracle_view self"
proof -
  from assms obtain s1 where m: "missed_return frame co self = Inr s1"
    and d: "dispatch frame event co s1 = Inr s"
    by (auto simp add: PyTracer_trace_def split: sum.splits)
  have v: "oracle_view s1 = oracle_view self" using m by (rule oracle_missed_return)
  then have c: "should_trace_cache s1 = should_trace_cache self" by (simp add: oracle_view_def)
  have "oracle_view s = oracle_view s1"
  proof (cases event)
    case Call
    with assms(3) obtain dd where "should_trace_cache s1 (co_filename frame) = Some dd"
      using c by auto
    then show ?thesis using d Call by (auto simp add: dispatch_def oracle_on_call_hit)
  next
    case Line
    then show ?thesis using d by (auto simp add: dispatch_def dest: oracle_on_line)
  next
    case Return
    then show ?thesis using d by (auto simp add: dispatch_def dest: oracle_on_return)
  next
    case Exception
    then show ?thesis using d by (auto simp add: dispatch_def)
  next
    case OtherEvent
    then show ?thesis using d by (auto simp add: dispatch_def)
  qed
  then show ?thesis using v by simp
qed

lemma oracle_trace_miss:
  assumes "\<not> stopped self" and "PyTracer_trace frame Call co self = Inr (r, s)"
    and "should_trace_cache self (co_filename frame) = None"
  shows "oracle_view s =
     ((should_trace_cache self)
        (co_filename frame \<mapsto> should_trace self (co_filename frame) frame),
      oracle_calls self @ [(co_filename frame, frame)])"
proof -
  from assms obtain s1 where m: "missed_return frame co self = Inr s1"
    and d: "s = on_call frame co s1"
    by (auto simp add: PyTracer_trace_def dispatch_def split: sum.splits)
  have v: "oracle_view s1 = oracle_view self" using m by (rule oracle_missed_return)
  then have c: "should_trace_cache s1 = should_trace_cache self"
    and o: "oracle_calls s1 = oracle_calls self" by (simp_all add: oracle_view_def)
  have "settings s1 = settings self" using m by (rule settings_missed_return)
  then have st: "should_trace s1 = should_trace self" by (simp add: settings_def)
  have "should_trace_cache s1 (co_filename frame) = None" using assms(3) c by simp
  from oracle_on_call_miss [OF this] show ?thesis by (simp only: d c o st)
qed

lemma oracle_calls_run:
  assumes "\<not> stopped self" and "run evs self = Inr s"
  shows "oracle_calls s = oracle_calls self @ first_calls (dom (should_trace_cache self)) evs"
  using assms
proof (induction evs arbitrary: self)
  case Nil
  then show ?case by simp
next
  case (Cons ev evs)
  obtain frame event co where ev: "ev = (frame, event, co)" by (cases ev)
  from Cons.prems obtain r s1 where t: "PyTracer_trace frame event co self = Inr (r, s1)"
    and rest: "run evs s1 = Inr s"
    by (auto simp add: ev split: sum.splits)
  have "settings s1 = settings self" using t by (rule settings_trace)
  then have ns: "\<not> stopped s1" using Cons.prems(1) by (simp add: settings_def)
  have ih: "oracle_calls s = oracle_calls s1 @ first_calls (dom (should_trace_cache s1)) evs"
    using Cons.IH [OF ns rest] .
  show ?case
  proof (cases "event = Call \<and> should_trace_cache self (co_filename frame) = None")
    case True
    then have "oracle_view s1 = ((should_trace_cache self)
              (co_filename frame \<mapsto> should_trace self (co_filename frame) frame),
            oracle_calls self @ [(co_filename frame, frame)])"
      using oracle_trace_miss [OF Cons.prems(1)] t by simp
    then have "should_trace_cache s1 = (should_trace_cache self)
              (co_filename frame \<mapsto> should_trace self (co_filename frame) frame)"
      and "oracle_calls s1 = oracle_calls self @ [(co_filename frame, frame)]"
      by (simp_all add: oracle_view_def)
    then show ?thesis using ih True by (simp add: ev domIff)
  next
    case False
    then have "oracle_view s1 = oracle_view self"
      using oracle_trace_other [OF Cons.prems(1) t] by blast
    then have "should_trace_cache s1 = should_trace_cache self"
      and "oracle_calls s1 = oracle_calls self"
      by (simp_all add: oracle_view_def)
    then show ?thesis using ih False by (auto simp add: ev domIff)
  qed
qed

lemma first_calls_names:
  "fst ` set (first_calls seen evs) =
     {co_filename frame | frame co. (frame, Call, co) \<in> set evs} - seen"
proof (induction seen evs rule: first_calls.induct)
  case (1 seen)
  then show ?case by simp
next
  case (2 seen frame event co rest)
  show ?case
  proof (cases "event = Call \<and> co_filename frame \<notin> seen")
    case True
    then show ?thesis using 2(1) by auto
  next
    case False
    then show ?thesis using 2(2) by auto
  qed
qed

lemma first_calls_distinct: "distinct (map fst (first_calls seen evs))"
proof (induction seen evs rule: first_calls.induct)
  case (1 seen)
  then show ?case by simp
next
  case (2 seen frame event co rest)
  show ?case
  proof (cases "event = Call \<and> co_filename frame \<notin> seen")
    case True
    have "co_filename frame \<notin> fst ` set (first_calls (insert (co_filename frame) seen) rest)"
      by (simp add: first_calls_names)
    then show ?thesis using True 2(1) by simp
  next
    case False
    then show ?thesis using 2(2) by auto
  qed
qed

lemma count_list_distinct:
  "distinct xs \<Longrightarrow> count_list xs x = (if x \<in> set xs then 1 else 0)"
  by (induction xs) auto

text \<open>
  C6. While the tracer runs, the calls made to \<open>should_trace\<close> during a sequence of
  events are exactly one per file name that is not yet in the cache, made at the first
  call event that names it and with that event's frame: however many call events name
  a file, it is looked up by the oracle once (and not at all when the cache had it
  from the start). A name that is in the cache is answered from the cache and leaves
  the tracer untouched.
\<close>

theorem oracle_called_once_per_file:
  assumes "\<not> stopped self" and "run evs self = Inr s"
  shows "oracle_calls s = oracle_calls self @ first_calls (dom (should_trace_cache self)) evs \<and>
         count_list (map fst (first_calls (dom (should_trace_cache self)) evs)) name =
           (if name \<notin> dom (should_trace_cache self) \<and>
               (\<exists>frame co. (frame, Call, co) \<in> set evs \<and> co_filename frame = name)
            then 1 else 0) \<and>
         (should_trace_cache t (co_filename frame) = Some d \<longrightarrow> lookup_disp frame t = (d, t))"
proof -
  have "name \<in> set (map fst (first_calls (dom (should_trace_cache self)) evs)) \<longleftrightarrow>
        name \<notin> dom (should_trace_cache self) \<and>
        (\<exists>frame co. (frame, Call, co) \<in> set evs \<and> co_filename frame = name)"
    using first_calls_names [of "dom (should_trace_cache self)" evs] by auto
  then have "count_list (map fst (first_calls (dom (should_trace_cache self)) evs)) name =
           (if name \<notin> dom (should_trace_cache self) \<and>
               (\<exists>frame co. (frame, Call, co) \<in> set evs \<and> co_filename frame = name)
            then 1 else 0)"
    using count_list_distinct [OF first_calls_distinct, of "dom (should_trace_cache self)" evs name]
    by simp
  moreover have "should_trace_cache t (co_filename frame) = Some d \<longrightarrow> lookup_disp frame t = (d, t)"
    by (simp add: lookup_disp_def)
  ultimately show ?thesis using oracle_calls_run [OF assms] by simp
qed

theorem oracle_called_once_per_file_witness:
  "\<not> stopped (PyTracer_init trace_all (\<lambda>n. True) False) \<and>
   map_sum id oracle_calls (run (main_calls_f 2) (PyTracer_init trace_all (\<lambda>n. True) False)) =
     Inr [(''main.py'', in_main 1), (''f.py'', in_f 2 10)] \<and>
   first_calls {} (main_calls_f 2) = [(''main.py'', in_main 1), (''f.py'', in_f 2 10)] \<and>
   count_list (map fst (first_calls {} (main_calls_f 2))) ''f.py'' = 1 \<and>
   (in_f 2 10, Call, 0) \<in> set (main_calls_f 2) \<and> (in_f 3 10, Call, 0) \<in> set (main_calls_f 2)"
proof -
  obtain s where r: "run (main_calls_f 2) (PyTracer_init trace_all (\<lambda>n. True) False) = Inr s"
    by (cases "run (main_calls_f 2) (PyTracer_init trace_all (\<lambda>n. True) False)")
       (simp_all add: input_defs trace_defs upt_rec)
  have n: "\<not> stopped (PyTracer_init trace_all (\<lambda>n. True) False)"
    by (simp add: PyTracer_init_def)
  have fc: "first_calls {} (main_calls_f 2) = [(''main.py'', in_main 1), (''f.py'', in_f 2 10)]"
    by (simp add: input_defs upt_rec)
  have mem: "(in_f 2 10, Call, 0) \<in> set (main_calls_f 2) \<and> (in_f 3 10, Call, 0) \<in> set (main_calls_f 2)"
    by (simp add: main_calls_f_def call_f_def upt_rec)
  have e: "should_trace_cache (PyTracer_init trace_all (\<lambda>n. True) False) = Map.empty"
    "oracle_calls (PyTracer_init trace_all (\<lambda>n. True) False) = []"
    by (simp_all add: PyTracer_init_def)
  show ?thesis
    using oracle_called_once_per_file [OF n r, of "''f.py''"] r n fc mem e
    by (simp add: in_f_def in_main_def)
qed

subsection \<open>Line mode\<close>

lemma lookup_disp_answers:
  "answers self disp_of \<Longrightarrow> fst (lookup_disp frame self) = disp_of (co_filename frame)"
  by (auto simp add: answers_def lookup_disp_def split: option.splits)

lemma enter_file_ctx:
  "(plugin (enter_file disp (tracename_of t disp frame) (s\<lparr>plugin := PyNone, cur_file_dict := PyNone\<rparr>)),
    cur_file_dict (enter_file disp (tracename_of t disp frame) (s\<lparr>plugin := PyNone, cur_file_dict := PyNone\<rparr>)))
   = entered t disp frame"
  by (simp add: enter_file_def entered_def split: option.splits)

lemma enter_file_file_dict:
  "file_dict (enter_file disp t s) = file_dict s"
  by (rule ext) (simp add: enter_file_def file_dict_def split: option.splits)

lemma tracename_of_check_include:
  "check_include s = check_include t \<Longrightarrow> tracename_of s disp frame = tracename_of t disp frame"
  by (simp add: tracename_of_def split: option.splits)

lemma on_call_ctx:
  assumes "answers self disp_of"
  shows "(plugin (on_call frame co self), cur_file_dict (on_call frame co self)) =
           entered self (disp_of (co_filename frame)) frame"
proof -
  let ?X = "push_context
          (if coroutine_id_func self then (select_stack co self)\<lparr>last_coroutine := Some co\<rparr>
           else self)"
  have "settings ?X = settings self" by simp
  then have ci: "check_include (snd (lookup_disp frame ?X)) = check_include self"
    using settings_lookup_disp [of frame ?X] by (simp add: settings_def)
  have "answers ?X disp_of"
    using assms pushed_fields [of self co] by (simp add: answers_def)
  then have d: "fst (lookup_disp frame ?X) = disp_of (co_filename frame)"
    by (rule lookup_disp_answers)
  show ?thesis
    using enter_file_ctx [of "fst (lookup_disp frame ?X)" "snd (lookup_disp frame ?X)" frame "snd (lookup_disp frame ?X)"]
    by (simp add: on_call_def split_beta d tracename_of_check_include [OF ci] entered_def)
qed

lemma stream_stack_view: "stack_view s = stack_view t \<Longrightarrow> stream_stack c s = stream_stack c t"
  by (auto simp add: stack_view_def stream_stack_def stack_list_def split: stack_ref.splits)

lemma stack_view_lookup_disp [simp]: "stack_view (snd (lookup_disp frame self)) = stack_view self"
  by (simp add: lookup_disp_def stack_view_def split: option.splits)

lemma stack_view_enter_file [simp]: "stack_view (enter_file disp t self) = stack_view self"
  by (simp add: enter_file_def stack_view_def split: option.splits)

lemma stack_view_dict_store [simp]: "stack_view (dict_store name k self) = stack_view self"
  by (simp add: dict_store_def stack_view_def)

lemma stack_view_foldl [simp]:
  "stack_view (foldl (\<lambda>s lineno. dict_store name (LineKey lineno) s) self ls) = stack_view self"
  by (induction ls arbitrary: self) simp_all

lemma stack_view_updates [simp]:
  "stack_view (self\<lparr>plugin := p\<rparr>) = stack_view self"
  "stack_view (self\<lparr>cur_file_dict := d\<rparr>) = stack_view self"
  "stack_view (self\<lparr>last_line := l\<rparr>) = stack_view self"
  "stack_view (self\<lparr>last_coroutine := x\<rparr>) = stack_view self"
  "stack_view (self\<lparr>last_exc_back := y\<rparr>) = stack_view self"
  by (simp_all add: stack_view_def)

lemma stack_view_on_call:
  "stack_view (on_call frame co self) =
     stack_view (push_context
          (if coroutine_id_func self then (select_stack co self)\<lparr>last_coroutine := Some co\<rparr>
           else self))"
  by (simp add: on_call_def split_beta)

lemma push_stream_stack:
  assumes "coroutine_id_func self \<longrightarrow> co = c"
  shows "stream_stack c (push_context
          (if coroutine_id_func self then (select_stack co self)\<lparr>last_coroutine := Some co\<rparr>
           else self)) =
         stream_stack c self @ [(plugin self, cur_file_dict self, last_line self)]"
proof (cases "coroutine_id_func self")
  case True
  then have "co = c" using assms by simp
  then show ?thesis using True
    by (simp add: push_context_def stack_assign_def stack_list_def select_stack_def
          stream_stack_def split: option.splits)
next
  case False
  then show ?thesis
    by (cases "data_stack self")
       (simp_all add: push_context_def stack_assign_def stack_list_def stream_stack_def
          split: option.splits)
qed

lemma on_call_stream_stack:
  assumes "coroutine_id_func self \<longrightarrow> co = c"
  shows "stream_stack c (on_call frame co self) =
         stream_stack c self @ [(plugin self, cur_file_dict self, last_line self)]"
  using stream_stack_view [OF stack_view_on_call, of c frame co self] push_stream_stack [OF assms]
  by simp

lemma data_simps [simp]:
  "data (select_stack c self) = data self"
  "data (stack_assign xs self) = data self"
  "data (push_context self) = data self"
  "data (snd (lookup_disp frame self)) = data self"
  by (simp_all add: select_stack_def stack_assign_def push_context_def lookup_disp_def
        split: stack_ref.splits option.splits)

lemma file_dict_data: "data s = data t \<Longrightarrow> file_dict s = file_dict t"
  by (rule ext) (simp add: file_dict_def)

lemma on_call_file_dict: "file_dict (on_call frame co self) = file_dict self"
proof -
  let ?X = "push_context
          (if coroutine_id_func self then (select_stack co self)\<lparr>last_coroutine := Some co\<rparr>
           else self)"
  have "data (snd (lookup_disp frame ?X)) = data self"
    by (cases "coroutine_id_func self") simp_all
  then have d: "data ((snd (lookup_disp frame ?X))\<lparr>plugin := PyNone, cur_file_dict := PyNone\<rparr>) = data self"
    by simp
  have "file_dict (on_call frame co self) =
        file_dict ((snd (lookup_disp frame ?X))\<lparr>plugin := PyNone, cur_file_dict := PyNone\<rparr>)"
    by (simp add: on_call_def split_beta enter_file_file_dict file_dict_data [of "_\<lparr>last_line := _\<rparr>" "_"])
  then show ?thesis using file_dict_data [OF d] by simp
qed

lemma answers_on_call:
  assumes "answers self disp_of"
  shows "answers (on_call frame co self) disp_of"
proof -
  have "settings (on_call frame co self) = settings self" by simp
  then have st: "should_trace (on_call frame co self) = should_trace self"
    by (simp add: settings_def)
  show ?thesis
  proof (cases "should_trace_cache self (co_filename frame)")
    case None
    from oracle_on_call_miss [OF None, of co]
    have "should_trace_cache (on_call frame co self) =
            (should_trace_cache self)
              (co_filename frame \<mapsto> should_trace self (co_filename frame) frame)"
      by (simp add: oracle_view_def)
    then show ?thesis using assms st by (simp add: answers_def)
  next
    case (Some d)
    from oracle_on_call_hit [OF Some, of co]
    have "should_trace_cache (on_call frame co self) = should_trace_cache self"
      by (simp add: oracle_view_def)
    then show ?thesis using assms st by (simp add: answers_def)
  qed
qed

lemma answers_view:
  "oracle_view s = oracle_view t \<Longrightarrow> settings s = settings t \<Longrightarrow>
   answers t disp_of \<Longrightarrow> answers s disp_of"
  by (simp add: oracle_view_def settings_def answers_def)

lemma foldl_file_dict:
  "file_dict (foldl (\<lambda>s lineno. dict_store name (LineKey lineno) s) self ls) m =
     (if m = name then file_dict self name \<union> LineKey ` set ls else file_dict self m)"
proof (induction ls arbitrary: self)
  case Nil
  then show ?case by simp
next
  case (Cons l ls)
  have step: "file_dict (dict_store name (LineKey l) self) m' =
        (if m' = name then insert (LineKey l) (file_dict self name) else file_dict self m')" for m'
    by (simp add: dict_store_def file_dict_def)
  show ?case by (simp add: Cons.IH step)
qed

lemma foldl_ctx [simp]:
  "plugin (foldl (\<lambda>s lineno. dict_store name (LineKey lineno) s) self ls) = plugin self"
  "cur_file_dict (foldl (\<lambda>s lineno. dict_store name (LineKey lineno) s) self ls) = cur_file_dict self"
  by (induction ls arbitrary: self) (simp_all add: dict_store_def)

lemma line_span_span_in: "line_span self frame = span_in (plugin self) frame"
  by (simp add: line_span_def span_in_def)

lemma on_line_line_mode:
  assumes "\<not> arcs self" and "cur_file_dict self \<noteq> EmptyList"
    and "span_in (plugin self) frame = (a, b)"
  shows "\<exists>s. on_line frame self = Inr s \<and> plugin s = plugin self \<and>
           cur_file_dict s = cur_file_dict self \<and> stack_view s = stack_view self \<and>
           (\<forall>m. file_dict s m =
                  (if cur_file_dict self = Obj m \<and> a \<noteq> - 1
                   then file_dict self m \<union> LineKey ` {a..b} else file_dict self m))"
proof (cases "cur_file_dict self")
  case EmptyList
  then show ?thesis using assms by simp
next
  case PyNone
  then show ?thesis using assms
    by (simp add: on_line_def line_span_span_in file_dict_data [of "_\<lparr>last_line := _\<rparr>" "_"])
next
  case (Obj name)
  then show ?thesis using assms
    by (simp add: on_line_def line_span_span_in foldl_file_dict
          file_dict_data [of "_\<lparr>last_line := _\<rparr>" "_"])
qed

lemma pop_selected:
  assumes "coroutine_id_func self \<longrightarrow> co = c"
    and "stream_stack c self = xs @ [(p, d, l)]"
  shows "\<exists>s. pop_context
               (if coroutine_id_func self
                then (select_stack co self)\<lparr>last_coroutine := Some co\<rparr> else self) = Inr s \<and>
             plugin s = p \<and> cur_file_dict s = d \<and> last_line s = l \<and>
             stream_stack c s = xs \<and> data s = data self"
proof (cases "coroutine_id_func self")
  case True
  then have "co = c" using assms by simp
  then show ?thesis using True assms(2)
    by (auto simp add: pop_context_def stack_assign_def stack_list_def select_stack_def
          stream_stack_def split: option.splits)
next
  case False
  then show ?thesis using assms(2)
    by (cases "data_stack self")
       (auto simp add: pop_context_def stack_assign_def stack_list_def stream_stack_def
          split: option.splits)
qed

lemma on_return_line_mode:
  assumes "\<not> arcs self" and "coroutine_id_func self \<longrightarrow> co = c"
    and "stream_stack c self = xs @ [(p, d, l)]"
  shows "\<exists>s. on_return frame co self = Inr s \<and>
             plugin s = p \<and> cur_file_dict s = d \<and> last_line s = l \<and>
             stream_stack c s = xs \<and> data s = data self"
  using pop_selected [OF assms(2,3)] assms(1) by (simp add: on_return_def)

lemma follows_step:
  assumes f: "follows self disp_of c base D s w"
    and run: "\<not> stopped self" and lm: "\<not> arcs self"
    and st: "coroutine_id_func self \<longrightarrow> co = c"
    and w: "walk_step self disp_of (frame, event, co) w = Some w'"
  shows "\<exists>s'. PyTracer_trace frame event co s = Inr (SelfTrace, s') \<and>
              follows self disp_of c base D s' w'"
proof -
  obtain cur stk L where w_def: "w = (cur, stk, L)" by (cases w)
  from f obtain top where
    set_s: "settings s = settings self" and leb: "last_exc_back s = None"
    and ans: "answers s disp_of"
    and stack: "stream_stack c s = base @ top" and top: "map (\<lambda>(p, d, l). (p, d)) top = rev stk"
    and live: "(plugin s, cur_file_dict s) = cur"
    and dat: "\<forall>n. file_dict s n = D n \<union> LineKey ` L n"
    by (auto simp add: follows_def w_def)
  from set_s run lm st have run_s: "\<not> stopped s" and lm_s: "\<not> arcs s"
    and st_s: "coroutine_id_func s \<longrightarrow> co = c"
    and ci: "check_include s = check_include self"
    by (simp_all add: settings_def)
  have tr: "PyTracer_trace frame event co s =
     (case dispatch frame event co s of Inl e \<Rightarrow> Inl e | Inr s' \<Rightarrow> Inr (SelfTrace, s'))"
    using run_s leb by (rule trace_no_marker)
  show ?thesis
  proof (cases event)
    case Call
    let ?s' = "on_call frame co s"
    have w': "w' = (entered self (disp_of (co_filename frame)) frame, cur # stk, L)"
      using w Call by (simp add: w_def)
    have 1: "settings ?s' = settings self" using set_s by simp
    have 2: "last_exc_back ?s' = None" using leb by simp
    have 3: "answers ?s' disp_of" using ans by (rule answers_on_call)
    have 4: "stream_stack c ?s' = base @ (top @ [(plugin s, cur_file_dict s, last_line s)])"
      using on_call_stream_stack [OF st_s] stack by simp
    have 5: "map (\<lambda>(p, d, l). (p, d)) (top @ [(plugin s, cur_file_dict s, last_line s)]) = rev (cur # stk)"
      using top live by auto
    have 6: "(plugin ?s', cur_file_dict ?s') = entered self (disp_of (co_filename frame)) frame"
      using on_call_ctx [OF ans] tracename_of_check_include [OF ci]
      by (simp add: entered_def)
    have 7: "\<forall>n. file_dict ?s' n = D n \<union> LineKey ` L n"
      using dat by (simp add: on_call_file_dict)
    have "follows self disp_of c base D ?s' w'"
      unfolding follows_def w' using 1 2 3 4 5 6 7 by blast
    then show ?thesis using tr Call by (simp add: dispatch_def)
  next
    case Line
    obtain a b where ab: "span_in (plugin s) frame = (a, b)" by (cases "span_in (plugin s) frame")
    have ne: "cur_file_dict s \<noteq> EmptyList"
      using w Line live by (auto simp add: w_def split: pyval.splits)
    from on_line_line_mode [OF lm_s ne ab] obtain s' where
      ol: "on_line frame s = Inr s'" and p': "plugin s' = plugin s"
      and c': "cur_file_dict s' = cur_file_dict s" and sv: "stack_view s' = stack_view s"
      and fd: "\<forall>m. file_dict s' m =
                  (if cur_file_dict s = Obj m \<and> a \<noteq> - 1
                   then file_dict s m \<union> LineKey ` {a..b} else file_dict s m)"
      by blast
    have 1: "settings s' = settings self" using settings_on_line [OF ol] set_s by simp
    have 2: "last_exc_back s' = None" using marker_on_line [OF ol] leb by simp
    have 3: "answers s' disp_of"
      using answers_view [OF oracle_on_line [OF ol] settings_on_line [OF ol] ans] .
    have 4: "stream_stack c s' = base @ top"
      using stream_stack_view [OF sv] stack by simp
    have 5: "(plugin s', cur_file_dict s') = cur" using p' c' live by simp
    obtain L' where w': "w' = (cur, stk, L')"
      and L': "L' = (case snd cur of Obj name \<Rightarrow>
                       (if a \<noteq> - 1 then L(name := L name \<union> {a..b}) else L) | _ \<Rightarrow> L)"
      using w Line live ab by (auto simp add: w_def split: pyval.splits)
    have 6: "\<forall>n. file_dict s' n = D n \<union> LineKey ` L' n"
      using fd dat live by (auto simp add: L' split: pyval.splits)
    have "follows self disp_of c base D s' w'"
      unfolding follows_def w' using 1 2 3 4 5 6 top by blast
    then show ?thesis using tr Line ol by (simp add: dispatch_def)
  next
    case Return
    from w Return obtain c0 cs where stk: "stk = c0 # cs" and w': "w' = (c0, cs, L)"
      by (auto simp add: w_def split: list.splits)
    from top stk obtain xs p d l where t: "top = xs @ [(p, d, l)]" and c0: "c0 = (p, d)"
      and xs: "map (\<lambda>(p, d, l). (p, d)) xs = rev cs"
      by (cases top rule: rev_cases) auto
    have stack': "stream_stack c s = (base @ xs) @ [(p, d, l)]" using stack t by simp
    from on_return_line_mode [OF lm_s st_s stack', of frame] obtain s' where
      orr: "on_return frame co s = Inr s'" and p': "plugin s' = p" and d': "cur_file_dict s' = d"
      and ss: "stream_stack c s' = base @ xs" and da: "data s' = data s"
      by blast
    have 1: "settings s' = settings self" using settings_on_return [OF orr] set_s by simp
    have 2: "last_exc_back s' = None" using marker_on_return [OF orr] leb by simp
    have 3: "answers s' disp_of"
      using answers_view [OF oracle_on_return [OF orr] settings_on_return [OF orr] ans] .
    have 6: "\<forall>n. file_dict s' n = D n \<union> LineKey ` L n"
      using dat file_dict_data [OF da] by simp
    have "follows self disp_of c base D s' w'"
      unfolding follows_def w' using 1 2 3 ss xs p' d' c0 6 by blast
    then show ?thesis using tr Return orr by (simp add: dispatch_def)
  next
    case Exception
    then show ?thesis using w by (simp add: w_def)
  next
    case OtherEvent
    then show ?thesis using w by (simp add: w_def)
  qed
qed

lemma follows_run:
  assumes "follows self disp_of c base D s w"
    and "\<not> stopped self" and "\<not> arcs self"
    and "coroutine_id_func self \<longrightarrow> (\<forall>(frame, event, co) \<in> set evs. co = c)"
    and "walk self disp_of evs w = Some w'"
  shows "\<exists>s'. run evs s = Inr s' \<and> follows self disp_of c base D s' w'"
  using assms
proof (induction evs arbitrary: s w)
  case Nil
  then show ?case by simp
next
  case (Cons ev evs)
  obtain frame event co where ev: "ev = (frame, event, co)" by (cases ev)
  from Cons.prems(5) obtain w1 where w1: "walk_step self disp_of (frame, event, co) w = Some w1"
    and rest: "walk self disp_of evs w1 = Some w'"
    by (auto simp add: ev split: option.splits)
  have st: "coroutine_id_func self \<longrightarrow> co = c" using Cons.prems(4) by (simp add: ev)
  from follows_step [OF Cons.prems(1,2,3) st w1] obtain s1 where
    t: "PyTracer_trace frame event co s = Inr (SelfTrace, s1)"
    and f1: "follows self disp_of c base D s1 w1" by blast
  have "coroutine_id_func self \<longrightarrow> (\<forall>(frame, event, co) \<in> set evs. co = c)"
    using Cons.prems(4) by simp
  from Cons.IH [OF f1 Cons.prems(2,3) this rest] obtain s' where
    "run evs s1 = Inr s'" and "follows self disp_of c base D s' w'" by blast
  then show ?case using t by (auto simp add: ev)
qed

lemma executed_lines_no_plugin:
  "executed_lines PyNone evs = {f_lineno frame | frame co. (frame, Line, co) \<in> set evs}"
proof (induction evs)
  case Nil
  then show ?case by simp
next
  case (Cons ev evs)
  obtain frame event co where ev: "ev = (frame, event, co)" by (cases ev)
  show ?case
  proof (cases "event = Line")
    case True
    have "executed_lines PyNone (ev # evs) = insert (f_lineno frame) (executed_lines PyNone evs)"
      using True by (simp add: ev span_in_def)
    also have "\<dots> = insert (f_lineno frame) {f_lineno frame | frame co. (frame, Line, co) \<in> set evs}"
      using Cons.IH by simp
    also have "\<dots> = {f_lineno fr | fr co. (fr, Line, co) \<in> set (ev # evs)}"
      using True by (auto simp add: ev)
    finally show ?thesis .
  next
    case False
    have "executed_lines PyNone (ev # evs) = executed_lines PyNone evs"
      using False by (simp add: ev)
    also have "\<dots> = {f_lineno frame | frame co. (frame, Line, co) \<in> set evs}"
      using Cons.IH by simp
    also have "\<dots> = {f_lineno fr | fr co. (fr, Line, co) \<in> set (ev # evs)}"
      using False by (auto simp add: ev)
    finally show ?thesis .
  qed
qed

lemma walk_one_unit:
  assumes "nesting k evs" and "length stk = k"
    and "0 < k \<longrightarrow> cur = (P, Obj u)"
    and "\<forall>c \<in> set (butlast stk). c = (P, Obj u)"
    and "\<forall>(frame, event, co) \<in> set evs.
           (event = Call \<longrightarrow> entered self (disp_of (co_filename frame)) frame = (P, Obj u)) \<and>
           (event = Line \<longrightarrow> fst (span_in P frame) \<noteq> - 1)"
  shows "\<exists>cur'. walk self disp_of evs (cur, stk, L) =
           Some (cur', [], L(u := L u \<union> executed_lines P evs))"
  using assms
proof (induction evs arbitrary: k cur stk L)
  case Nil
  then show ?case by simp
next
  case (Cons ev evs)
  obtain frame event co where ev: "ev = (frame, event, co)" by (cases ev)
  have rest: "\<forall>(frame, event, co) \<in> set evs.
           (event = Call \<longrightarrow> entered self (disp_of (co_filename frame)) frame = (P, Obj u)) \<and>
           (event = Line \<longrightarrow> fst (span_in P frame) \<noteq> - 1)"
    using Cons.prems(5) by simp
  show ?case
  proof (cases event)
    case Call
    have n: "nesting (Suc k) evs" using Cons.prems(1) Call by (simp add: ev)
    have e: "entered self (disp_of (co_filename frame)) frame = (P, Obj u)"
      using Cons.prems(5) Call by (simp add: ev)
    have b: "\<forall>c \<in> set (butlast (cur # stk)). c = (P, Obj u)"
      using Cons.prems(2,3,4) by (cases stk) auto
    from Cons.IH [OF n _ _ b rest, of "(P, Obj u)" L]
    show ?thesis using Cons.prems(2) Call e by (simp add: ev)
  next
    case Line
    have k: "0 < k" and n: "nesting k evs" using Cons.prems(1) Line by (simp_all add: ev)
    have c: "cur = (P, Obj u)" using Cons.prems(3) k by simp
    have v: "fst (span_in P frame) \<noteq> - 1" using Cons.prems(5) Line by (simp add: ev)
    let ?L1 = "L(u := L u \<union> {fst (span_in P frame) .. snd (span_in P frame)})"
    from Cons.IH [OF n Cons.prems(2,3,4) rest, of ?L1]
    obtain cur' where W: "walk self disp_of evs (cur, stk, ?L1) =
           Some (cur', [], ?L1(u := ?L1 u \<union> executed_lines P evs))" by blast
    have eq: "?L1(u := ?L1 u \<union> executed_lines P evs) =
                   L(u := L u \<union> executed_lines P (ev # evs))"
      using Line by (simp add: ev Un_assoc)
    have st: "walk self disp_of (ev # evs) (cur, stk, L) = walk self disp_of evs (cur, stk, ?L1)"
      using Line c v by (simp add: ev)
    have "walk self disp_of (ev # evs) (cur, stk, L) =
            Some (cur', [], L(u := L u \<union> executed_lines P (ev # evs)))"
      unfolding st W eq ..
    then show ?thesis ..
  next
    case Return
    have k: "0 < k" and n: "nesting (k - 1) evs" using Cons.prems(1) Return by (simp_all add: ev)
    from k Cons.prems(2) obtain c0 cs where stk: "stk = c0 # cs" by (cases stk) auto
    have l: "length cs = k - 1" using Cons.prems(2) stk by simp
    have c: "0 < k - 1 \<longrightarrow> c0 = (P, Obj u)"
      using Cons.prems(4) l stk by (cases cs) auto
    have b: "\<forall>c \<in> set (butlast cs). c = (P, Obj u)"
      using Cons.prems(4) stk by (cases cs) auto
    from Cons.IH [OF n l c b rest, of L]
    show ?thesis using Return stk by (simp add: ev)
  next
    case Exception
    then show ?thesis using Cons.prems(1) by (simp add: ev)
  next
    case OtherEvent
    then show ?thesis using Cons.prems(1) by (simp add: ev)
  qed
qed

lemma follows_start:
  assumes "last_exc_back self = None" and "answers self disp_of"
  shows "follows self disp_of c (stream_stack c self) (file_dict self) self
           ((plugin self, cur_file_dict self), [], \<lambda>n. {})"
  using assms by (simp add: follows_def)

lemma dict_store_present:
  "data self name = Some d \<Longrightarrow> k \<in> d \<Longrightarrow> dict_store name k self = self"
  by (simp add: dict_store_def file_dict_def insert_absorb fun_upd_idem)

lemma dict_store_twice:
  "dict_store name k (dict_store name k self) = dict_store name k self"
  by (simp add: dict_store_def file_dict_def)

text \<open>
  C1. Line mode, a running tracer with no exception pending, an oracle whose answer
  depends on the file name only, and a well-paired sequence of call, line and return
  events of one coroutine in which every call enters the traced unit \<open>u\<close> (with plugin
  \<open>P\<close>, or none) and no statement is reported at line -1. Then the tracer handles
  the whole sequence without raising, and afterwards the set recorded for \<open>u\<close> is
  what was there before together with exactly the executed lines, a set, however
  often a line was executed; no other file's set changes. Without a plugin the
  executed lines are the \<open>f_lineno\<close> of the line events. Storing a key that a
  dictionary already holds leaves the tracer as it is, and storing a key twice is
  storing it once.
\<close>

theorem line_mode_records_executed_lines:
  assumes "\<not> stopped self" and "\<not> arcs self" and "last_exc_back self = None"
    and "answers self disp_of"
    and "well_paired evs"
    and "coroutine_id_func self \<longrightarrow> (\<forall>(frame, event, co) \<in> set evs. co = c)"
    and "\<forall>(frame, event, co) \<in> set evs.
           (event = Call \<longrightarrow> entered self (disp_of (co_filename frame)) frame = (P, Obj u)) \<and>
           (event = Line \<longrightarrow> fst (span_in P frame) \<noteq> - 1)"
  shows "(\<exists>s. run evs self = Inr s \<and>
              file_dict s u = file_dict self u \<union> LineKey ` executed_lines P evs \<and>
              (\<forall>n. n \<noteq> u \<longrightarrow> file_dict s n = file_dict self n)) \<and>
         (P = PyNone \<longrightarrow>
            executed_lines P evs = {f_lineno frame | frame co. (frame, Line, co) \<in> set evs}) \<and>
         (\<forall>t name k d. data t name = Some d \<and> k \<in> d \<longrightarrow> dict_store name k t = t) \<and>
         (\<forall>t name k. dict_store name k (dict_store name k t) = dict_store name k t)"
proof -
  have n: "nesting 0 evs" using assms(5) by (simp add: well_paired_def)
  from walk_one_unit [OF n _ _ _ assms(7), of "[]" "(plugin self, cur_file_dict self)" "\<lambda>n. {}"]
  obtain cur' where w: "walk self disp_of evs ((plugin self, cur_file_dict self), [], \<lambda>n. {}) =
           Some (cur', [], (\<lambda>n. {})(u := {} \<union> executed_lines P evs))"
    by auto
  from follows_run [OF follows_start [OF assms(3,4)] assms(1,2,6) w]
  obtain s where r: "run evs self = Inr s"
    and f: "follows self disp_of c (stream_stack c self) (file_dict self) s
              (cur', [], (\<lambda>n. {})(u := {} \<union> executed_lines P evs))"
    by blast
  from f have fd: "\<forall>n. file_dict s n =
      file_dict self n \<union> LineKey ` ((\<lambda>n. {})(u := {} \<union> executed_lines P evs)) n"
    by (simp add: follows_def)
  have 1: "file_dict s u = file_dict self u \<union> LineKey ` executed_lines P evs"
    using fd by simp
  have 2: "\<forall>n. n \<noteq> u \<longrightarrow> file_dict s n = file_dict self n"
    using fd by simp
  have A: "\<exists>s. run evs self = Inr s \<and>
              file_dict s u = file_dict self u \<union> LineKey ` executed_lines P evs \<and>
              (\<forall>n. n \<noteq> u \<longrightarrow> file_dict s n = file_dict self n)"
    using r 1 2 by blast
  have B: "P = PyNone \<longrightarrow>
            executed_lines P evs = {f_lineno frame | frame co. (frame, Line, co) \<in> set evs}"
    using executed_lines_no_plugin by simp
  have C: "\<forall>t name k d. data t name = Some d \<and> k \<in> d \<longrightarrow> dict_store name k t = t"
    using dict_store_present by blast
  have D: "\<forall>t name k. dict_store name k (dict_store name k t) = dict_store name k t"
    using dict_store_twice by blast
  show ?thesis using A B C D by (intro conjI)
qed

theorem line_mode_records_executed_lines_witness:
  "well_paired (call_f 2 @ call_f 3) \<and>
   answers (PyTracer_init trace_all (\<lambda>n. True) False) (\<lambda>n. trace_all n (in_main 1)) \<and>
   entered (PyTracer_init trace_all (\<lambda>n. True) False) (trace_all ''f.py'' (in_main 1)) (in_f 2 10) =
     (PyNone, Obj ''f.py'') \<and>
   executed_lines PyNone (call_f 2 @ call_f 3) = {10, 11, 12} \<and>
   (\<exists>s. run (call_f 2 @ call_f 3) (PyTracer_init trace_all (\<lambda>n. True) False) = Inr s \<and>
        file_dict s ''f.py'' = {LineKey 10, LineKey 11, LineKey 12})"
proof -
  let ?t = "PyTracer_init trace_all (\<lambda>n. True) False"
  let ?d = "\<lambda>n. trace_all n (in_main 1)"
  let ?evs = "call_f 2 @ call_f 3"
  have h1: "\<not> stopped ?t" and h2: "\<not> arcs ?t" and h3: "last_exc_back ?t = None"
    by (simp_all add: PyTracer_init_def)
  have h4: "answers ?t ?d"
    by (simp add: answers_def PyTracer_init_def trace_all_def)
  have h5: "well_paired ?evs"
    by (simp add: well_paired_def call_f_def)
  have h6: "coroutine_id_func ?t \<longrightarrow> (\<forall>(frame, event, co) \<in> set ?evs. co = 0)"
    by (simp add: PyTracer_init_def)
  have e: "entered ?t (trace_all ''f.py'' (in_main 1)) fr = (PyNone, Obj ''f.py'')" for fr
    by (simp add: entered_def tracename_of_def trace_all_def)
  have h7: "\<forall>(frame, event, co) \<in> set ?evs.
           (event = Call \<longrightarrow> entered ?t (?d (co_filename frame)) frame = (PyNone, Obj ''f.py'')) \<and>
           (event = Line \<longrightarrow> fst (span_in PyNone frame) \<noteq> - 1)"
    by (simp add: call_f_def in_f_def e span_in_def)
  have x: "executed_lines PyNone ?evs = {10, 11, 12}"
    by (simp add: call_f_def in_f_def span_in_def insert_commute)
  have f0: "file_dict ?t ''f.py'' = {}"
    by (simp add: file_dict_def PyTracer_init_def)
  from line_mode_records_executed_lines [OF h1 h2 h3 h4 h5 h6 h7]
  obtain s where "run ?evs ?t = Inr s"
    and "file_dict s ''f.py'' = file_dict ?t ''f.py'' \<union> LineKey ` executed_lines PyNone ?evs"
    by blast
  then have "run ?evs ?t = Inr s \<and> file_dict s ''f.py'' = {LineKey 10, LineKey 11, LineKey 12}"
    by (simp add: x f0)
  then have "\<exists>s. run ?evs ?t = Inr s \<and> file_dict s ''f.py'' = {LineKey 10, LineKey 11, LineKey 12}" ..
  then show ?thesis using h4 h5 e x by blast
qed

subsection \<open>Several coroutines\<close>

lemma entered_not_list: "snd (entered self disp frame) \<noteq> EmptyList"
  by (simp add: entered_def split: option.splits)

lemma walk_nesting:
  assumes "nesting k evs" and "length stk = k"
    and "0 < k \<longrightarrow> snd cur \<noteq> EmptyList"
    and "\<forall>c \<in> set (butlast stk). snd c \<noteq> EmptyList"
  shows "\<exists>L'. walk self disp_of evs (cur, stk, L) =
           Some ((if k = 0 then cur else last stk), [], L')"
  using assms
proof (induction evs arbitrary: k cur stk L)
  case Nil
  then show ?case by simp
next
  case (Cons ev evs)
  obtain frame event co where ev: "ev = (frame, event, co)" by (cases ev)
  show ?case
  proof (cases event)
    case Call
    have n: "nesting (Suc k) evs" using Cons.prems(1) Call by (simp add: ev)
    have l: "length (cur # stk) = Suc k" using Cons.prems(2) by simp
    have b: "\<forall>c \<in> set (butlast (cur # stk)). snd c \<noteq> EmptyList"
      using Cons.prems(2,3,4) by (cases stk) auto
    have c: "0 < Suc k \<longrightarrow> snd (entered self (disp_of (co_filename frame)) frame) \<noteq> EmptyList"
      by (simp add: entered_not_list)
    from Cons.IH [OF n l c b, of L]
    obtain L' where "walk self disp_of evs
        (entered self (disp_of (co_filename frame)) frame, cur # stk, L) =
           Some (last (cur # stk), [], L')" by auto
    moreover have "last (cur # stk) = (if k = 0 then cur else last stk)"
      using Cons.prems(2) by (cases stk) auto
    ultimately show ?thesis using Call by (simp add: ev)
  next
    case Line
    have k: "0 < k" and n: "nesting k evs" using Cons.prems(1) Line by (simp_all add: ev)
    have c: "snd cur \<noteq> EmptyList" using Cons.prems(3) k by simp
    obtain L1 where "walk_step self disp_of (frame, Line, co) (cur, stk, L) = Some (cur, stk, L1)"
      using c by (cases "snd cur") auto
    moreover from Cons.IH [OF n Cons.prems(2,3,4), of L1]
    obtain L' where "walk self disp_of evs (cur, stk, L1) =
           Some ((if k = 0 then cur else last stk), [], L')" by blast
    ultimately show ?thesis using Line by (simp add: ev)
  next
    case Return
    have k: "0 < k" and n: "nesting (k - 1) evs" using Cons.prems(1) Return by (simp_all add: ev)
    from k Cons.prems(2) obtain c0 cs where stk: "stk = c0 # cs" by (cases stk) auto
    have l: "length cs = k - 1" using Cons.prems(2) stk by simp
    have c: "0 < k - 1 \<longrightarrow> snd c0 \<noteq> EmptyList"
      using Cons.prems(4) l stk by (cases cs) auto
    have b: "\<forall>c \<in> set (butlast cs). snd c \<noteq> EmptyList"
      using Cons.prems(4) stk by (cases cs) auto
    from Cons.IH [OF n l c b, of L]
    obtain L' where "walk self disp_of evs (c0, cs, L) =
           Some ((if k - 1 = 0 then c0 else last cs), [], L')" by blast
    moreover have "(if k - 1 = 0 then c0 else last cs) = (if k = 0 then cur else last stk)"
      using k l stk by (cases cs) auto
    ultimately show ?thesis using Return stk by (simp add: ev)
  next
    case Exception
    then show ?thesis using Cons.prems(1) by (simp add: ev)
  next
    case OtherEvent
    then show ?thesis using Cons.prems(1) by (simp add: ev)
  qed
qed

lemma walk_block:
  assumes "well_paired b"
  shows "\<exists>L'. walk self disp_of b (cur, [], L) = Some (cur, [], L')"
  using walk_nesting [of 0 b "[]" cur self disp_of L] assms by (simp add: well_paired_def)

lemma stacks_of_view: "stack_view s = stack_view t \<Longrightarrow> data_stacks s = data_stacks t"
  by (simp add: stack_view_def)

lemma resolver_of_view: "stack_view s = stack_view t \<Longrightarrow> coroutine_id_func s = coroutine_id_func t"
  by (simp add: stack_view_def)

lemma select_other: "c' \<noteq> c \<Longrightarrow> data_stacks (select_stack c self) c' = data_stacks self c'"
  by (simp add: select_stack_def split: option.splits)

lemma select_ref [simp]: "data_stack (select_stack c self) = StackOf c"
  by (simp add: select_stack_def)

lemma push_other:
  "data_stack self = StackOf c \<Longrightarrow> c' \<noteq> c \<Longrightarrow>
   data_stacks (push_context self) c' = data_stacks self c'"
  by (simp add: push_context_def stack_assign_def)

lemma pop_other:
  "data_stack self = StackOf c \<Longrightarrow> c' \<noteq> c \<Longrightarrow> pop_context self = Inr s \<Longrightarrow>
   data_stacks s c' = data_stacks self c'"
  by (auto simp add: pop_context_def stack_assign_def split: if_splits prod.splits)

lemma stack_view_store_arc: "store_arc n self = Inr s \<Longrightarrow> stack_view s = stack_view self"
  by (auto simp add: store_arc_def split: pyval.splits lastline.splits)

lemma stack_view_on_line: "on_line frame self = Inr s \<Longrightarrow> stack_view s = stack_view self"
  by (auto simp add: on_line_def split: prod.splits if_splits pyval.splits sum.splits
           dest!: stack_view_store_arc)

lemma on_call_other:
  assumes "coroutine_id_func self" and "c' \<noteq> co"
  shows "data_stacks (on_call frame co self) c' = data_stacks self c'"
proof -
  have "data_stacks (on_call frame co self) =
        data_stacks (push_context ((select_stack co self)\<lparr>last_coroutine := Some co\<rparr>))"
    using stacks_of_view [OF stack_view_on_call, of frame co self] assms(1) by simp
  moreover have "data_stack ((select_stack co self)\<lparr>last_coroutine := Some co\<rparr>) = StackOf co"
    by simp
  ultimately show ?thesis
    using push_other [of "(select_stack co self)\<lparr>last_coroutine := Some co\<rparr>" co c']
      select_other [of c' co self] assms(2) by simp
qed

lemma on_return_other:
  assumes "coroutine_id_func self" and "c' \<noteq> co" and "on_return frame co self = Inr s"
  shows "data_stacks s c' = data_stacks self c'"
proof -
  obtain t where t: "(if arcs self \<and> cur_file_dict_true self
            then store_arc (- co_firstlineno frame) self else Inr self) = Inr t"
    and p: "pop_context (if coroutine_id_func t
             then (select_stack co t)\<lparr>last_coroutine := Some co\<rparr> else t) = Inr s"
    using assms(3) by (auto simp add: on_return_def split: sum.splits)
  have v: "stack_view t = stack_view self"
    using t by (auto split: if_splits dest: stack_view_store_arc)
  then have "coroutine_id_func t" using assms(1) by (simp add: stack_view_def)
  then have p': "pop_context ((select_stack co t)\<lparr>last_coroutine := Some co\<rparr>) = Inr s"
    using p by simp
  have "data_stacks s c' = data_stacks ((select_stack co t)\<lparr>last_coroutine := Some co\<rparr>) c'"
    using pop_other [OF _ assms(2) p'] by simp
  then show ?thesis using select_other [OF assms(2), of t] stacks_of_view [OF v] by simp
qed

lemma missed_return_other:
  assumes "coroutine_id_func self" and "c' \<noteq> co" and "missed_return frame co self = Inr s"
  shows "data_stacks s c' = data_stacks self c'"
proof (cases "last_exc_back self = Some (frame_id frame)")
  case False
  then show ?thesis using assms(3) by (simp add: missed_return_no_match) auto
next
  case True
  obtain t u where t: "(if arcs self \<and> cur_file_dict_true self
            then store_arc (- last_exc_firstlineno self) self else Inr self) = Inr t"
    and p: "pop_context (if coroutine_id_func t then select_stack co t else t) = Inr u"
    and s: "s = u\<lparr>last_exc_back := None\<rparr>"
    using assms(3) True by (auto simp add: missed_return_def split: sum.splits)
  have v: "stack_view t = stack_view self"
    using t by (auto split: if_splits dest: stack_view_store_arc)
  then have "coroutine_id_func t" using assms(1) by (simp add: stack_view_def)
  then have p': "pop_context (select_stack co t) = Inr u" using p by simp
  have "data_stacks u c' = data_stacks (select_stack co t) c'"
    using pop_other [OF _ assms(2) p'] by simp
  then show ?thesis using select_other [OF assms(2), of t] stacks_of_view [OF v] s by simp
qed

lemma other_stack_untouched:
  assumes "coroutine_id_func self" and "c' \<noteq> co"
    and "PyTracer_trace frame event co self = Inr (r, s)"
  shows "data_stacks s c' = data_stacks self c'"
proof (cases "stopped self")
  case True
  then show ?thesis using assms(3) by (simp add: trace_stopped)
next
  case False
  from assms(3) False obtain s1 where m: "missed_return frame co self = Inr s1"
    and d: "dispatch frame event co s1 = Inr s"
    by (auto simp add: PyTracer_trace_def split: sum.splits)
  have 1: "data_stacks s1 c' = data_stacks self c'"
    using missed_return_other [OF assms(1,2) m] .
  have "settings s1 = settings self" using m by (rule settings_missed_return)
  then have r1: "coroutine_id_func s1" using assms(1) by (simp add: settings_def)
  have "data_stacks s c' = data_stacks s1 c'"
  proof (cases event)
    case Call
    then show ?thesis using d on_call_other [OF r1 assms(2)] by (auto simp add: dispatch_def)
  next
    case Line
    then have "on_line frame s1 = Inr s" using d by (simp add: dispatch_def)
    then show ?thesis using stacks_of_view [OF stack_view_on_line] by simp
  next
    case Return
    then show ?thesis using d on_return_other [OF r1 assms(2)] by (auto simp add: dispatch_def)
  next
    case Exception
    then show ?thesis using d by (auto simp add: dispatch_def on_exception_def)
  next
    case OtherEvent
    then show ?thesis using d by (auto simp add: dispatch_def)
  qed
  then show ?thesis using 1 by simp
qed

lemma stream_stack_resolver:
  "coroutine_id_func s \<Longrightarrow>
   stream_stack c s = (case data_stacks s c of None \<Rightarrow> [] | Some xs \<Rightarrow> xs)"
  by (simp add: stream_stack_def)

lemma resolver_settings: "settings s = settings t \<Longrightarrow> coroutine_id_func s = coroutine_id_func t"
  by (simp add: settings_def)

lemma on_call_other_stream:
  assumes "coroutine_id_func s" and "c' \<noteq> co"
  shows "stream_stack c' (on_call frame co s) = stream_stack c' s"
proof -
  have "coroutine_id_func (on_call frame co s)"
    using resolver_settings [OF settings_on_call, of frame co s] assms(1) by simp
  then show ?thesis
    using assms(1) on_call_other [OF assms] by (simp add: stream_stack_resolver)
qed

lemma on_return_other_stream:
  assumes "coroutine_id_func s" and "c' \<noteq> co" and "on_return frame co s = Inr t"
  shows "stream_stack c' t = stream_stack c' s"
proof -
  have "coroutine_id_func t"
    using resolver_settings [OF settings_on_return [OF assms(3)]] assms(1) by simp
  then show ?thesis
    using assms(1) on_return_other [OF assms] by (simp add: stream_stack_resolver)
qed

lemma lockstep_step:
  assumes res: "coroutine_id_func self" and run: "\<not> stopped self" and lm: "\<not> arcs self"
    and ne: "X \<noteq> Y"
    and fX: "follows self disp_of X baseX D tX (curX, stkX, LX)"
    and set_s: "settings s = settings self" and leb: "last_exc_back s = None"
    and ans: "answers s disp_of"
    and dat: "\<forall>n. file_dict s n = D n \<union> LineKey ` (LX n \<union> LY n)"
    and len: "length stkX \<le> length (stream_stack X s)"
    and agree: "event = Line \<longrightarrow> (plugin s, cur_file_dict s) = (plugin tX, cur_file_dict tX)"
    and w: "walk_step self disp_of (frame, event, X) (curX, stkX, LX) = Some (curX', stkX', LX')"
  shows "\<exists>s' tX'. PyTracer_trace frame event X s = Inr (SelfTrace, s') \<and>
           PyTracer_trace frame event X tX = Inr (SelfTrace, tX') \<and>
           follows self disp_of X baseX D tX' (curX', stkX', LX') \<and>
           settings s' = settings self \<and> last_exc_back s' = None \<and> answers s' disp_of \<and>
           (\<forall>n. file_dict s' n = D n \<union> LineKey ` (LX' n \<union> LY n)) \<and>
           length stkX' \<le> length (stream_stack X s') \<and>
           stream_stack Y s' = stream_stack Y s"
proof -
  have stX: "coroutine_id_func self \<longrightarrow> X = X" by simp
  from follows_step [OF fX run lm stX w] obtain tX' where
    tX: "PyTracer_trace frame event X tX = Inr (SelfTrace, tX')"
    and fX': "follows self disp_of X baseX D tX' (curX', stkX', LX')" by blast
  from set_s run lm res have run_s: "\<not> stopped s" and lm_s: "\<not> arcs s"
    and res_s: "coroutine_id_func s"
    by (simp_all add: settings_def)
  have st_s: "coroutine_id_func s \<longrightarrow> X = X" by simp
  have tr: "PyTracer_trace frame event X s =
     (case dispatch frame event X s of Inl e \<Rightarrow> Inl e | Inr s' \<Rightarrow> Inr (SelfTrace, s'))"
    using run_s leb by (rule trace_no_marker)
  have liveX: "(plugin tX, cur_file_dict tX) = curX"
    using fX by (simp add: follows_def)
  have neq: "Y \<noteq> X" using ne by simp
  show ?thesis
  proof (cases event)
    case Call
    let ?s' = "on_call frame X s"
    have w': "stkX' = curX # stkX" "LX' = LX" using w Call by simp_all
    have 1: "settings ?s' = settings self" using set_s by simp
    have 2: "last_exc_back ?s' = None" using leb by simp
    have 3: "answers ?s' disp_of" using ans by (rule answers_on_call)
    have 4: "\<forall>n. file_dict ?s' n = D n \<union> LineKey ` (LX' n \<union> LY n)"
      using dat w' by (simp add: on_call_file_dict)
    have 5: "length stkX' \<le> length (stream_stack X ?s')"
      using on_call_stream_stack [OF st_s, of frame] len w' by simp
    have 6: "stream_stack Y ?s' = stream_stack Y s"
      using on_call_other_stream [OF res_s neq] .
    have "PyTracer_trace frame event X s = Inr (SelfTrace, ?s')"
      using tr Call by (simp add: dispatch_def)
    then show ?thesis using tX fX' 1 2 3 4 5 6 by blast
  next
    case Line
    have ag: "plugin s = plugin tX" "cur_file_dict s = cur_file_dict tX"
      using agree Line by simp_all
    obtain a b where ab: "span_in (plugin s) frame = (a, b)" by (cases "span_in (plugin s) frame")
    have curX: "fst curX = plugin s" "snd curX = cur_file_dict s"
      using liveX ag by auto
    have ne_list: "cur_file_dict s \<noteq> EmptyList"
      using w Line curX by (auto split: pyval.splits)
    from on_line_line_mode [OF lm_s ne_list ab] obtain s' where
      ol: "on_line frame s = Inr s'" and sv: "stack_view s' = stack_view s"
      and fd: "\<forall>m. file_dict s' m =
                  (if cur_file_dict s = Obj m \<and> a \<noteq> - 1
                   then file_dict s m \<union> LineKey ` {a..b} else file_dict s m)"
      by blast
    have 1: "settings s' = settings self" using settings_on_line [OF ol] set_s by simp
    have 2: "last_exc_back s' = None" using marker_on_line [OF ol] leb by simp
    have 3: "answers s' disp_of"
      using answers_view [OF oracle_on_line [OF ol] settings_on_line [OF ol] ans] .
    have w': "stkX' = stkX"
      and L': "LX' = (case cur_file_dict s of Obj name \<Rightarrow>
                       (if a \<noteq> - 1 then LX(name := LX name \<union> {a..b}) else LX) | _ \<Rightarrow> LX)"
      using w Line curX ab by (auto split: pyval.splits)
    have 4: "\<forall>n. file_dict s' n = D n \<union> LineKey ` (LX' n \<union> LY n)"
      using fd dat by (auto simp add: L' split: pyval.splits)
    have 5: "length stkX' \<le> length (stream_stack X s')"
      using stream_stack_view [OF sv, of X] len w' by simp
    have 6: "stream_stack Y s' = stream_stack Y s"
      using stream_stack_view [OF sv] .
    have "PyTracer_trace frame event X s = Inr (SelfTrace, s')"
      using tr Line ol by (simp add: dispatch_def)
    then show ?thesis using tX fX' 1 2 3 4 5 6 by blast
  next
    case Return
    from w Return obtain c0 where stk: "stkX = c0 # stkX'" and L': "LX' = LX"
      by (auto split: list.splits)
    from len stk have "stream_stack X s \<noteq> []" by auto
    then obtain xs p d l where stack: "stream_stack X s = xs @ [(p, d, l)]"
      by (cases "stream_stack X s" rule: rev_cases) auto
    from on_return_line_mode [OF lm_s st_s stack, of frame] obtain s' where
      orr: "on_return frame X s = Inr s'" and ss: "stream_stack X s' = xs"
      and da: "data s' = data s"
      by blast
    have 1: "settings s' = settings self" using settings_on_return [OF orr] set_s by simp
    have 2: "last_exc_back s' = None" using marker_on_return [OF orr] leb by simp
    have 3: "answers s' disp_of"
      using answers_view [OF oracle_on_return [OF orr] settings_on_return [OF orr] ans] .
    have 4: "\<forall>n. file_dict s' n = D n \<union> LineKey ` (LX' n \<union> LY n)"
      using dat file_dict_data [OF da] L' by simp
    have 5: "length stkX' \<le> length (stream_stack X s')"
      using len stk stack ss by simp
    have 6: "stream_stack Y s' = stream_stack Y s"
      using on_return_other_stream [OF res_s neq orr] .
    have "PyTracer_trace frame event X s = Inr (SelfTrace, s')"
      using tr Return orr by (simp add: dispatch_def)
    then show ?thesis using tX fX' 1 2 3 4 5 6 by blast
  next
    case Exception
    then show ?thesis using w by simp
  next
    case OtherEvent
    then show ?thesis using w by simp
  qed
qed


lemma of_stream_Cons:
  "of_stream c ((frame, event, co) # rest) =
     (if co = c then (frame, event, co) # of_stream c rest else of_stream c rest)"
  by (simp add: of_stream_def)

lemma of_stream_snoc:
  "of_stream c (pre @ [(frame, event, co)]) =
     (if co = c then of_stream c pre @ [(frame, event, co)] else of_stream c pre)"
  by (simp add: of_stream_def)

lemma run_snoc:
  "run pre self = Inr s \<Longrightarrow> PyTracer_trace frame event co s = Inr (r, s') \<Longrightarrow>
   run (pre @ [(frame, event, co)]) self = Inr s'"
  by (simp add: run_append)

lemma lockstep:
  assumes res: "coroutine_id_func self" and run: "\<not> stopped self" and lm: "\<not> arcs self"
    and ne: "A \<noteq> B"
    and two: "\<forall>(frame, event, co) \<in> set rest. co = A \<or> co = B"
    and own: "lines_in_own_context self pre rest"
    and rs: "run pre self = Inr s"
    and rA: "run (of_stream A pre) self = Inr tA"
    and fA: "follows self disp_of A baseA D tA (curA, stkA, LA)"
    and rB: "run (of_stream B pre) self = Inr tB"
    and fB: "follows self disp_of B baseB D tB (curB, stkB, LB)"
    and set_s: "settings s = settings self" and leb: "last_exc_back s = None"
    and ans: "answers s disp_of"
    and dat: "\<forall>n. file_dict s n = D n \<union> LineKey ` (LA n \<union> LB n)"
    and lenA: "length stkA \<le> length (stream_stack A s)"
    and lenB: "length stkB \<le> length (stream_stack B s)"
    and wA: "walk self disp_of (of_stream A rest) (curA, stkA, LA) = Some wA'"
    and wB: "walk self disp_of (of_stream B rest) (curB, stkB, LB) = Some wB'"
  shows "\<exists>s' tA' tB'. run (pre @ rest) self = Inr s' \<and>
           run (of_stream A (pre @ rest)) self = Inr tA' \<and>
           run (of_stream B (pre @ rest)) self = Inr tB' \<and>
           (\<forall>n. file_dict s' n = file_dict tA' n \<union> file_dict tB' n)"
  using two own rs rA fA rB fB set_s leb ans dat lenA lenB wA wB
proof (induction rest arbitrary: pre s tA tB curA stkA LA curB stkB LB)
  case Nil
  have "file_dict tA n = D n \<union> LineKey ` LA n" for n
    using Nil.prems(5) by (simp add: follows_def)
  moreover have "file_dict tB n = D n \<union> LineKey ` LB n" for n
    using Nil.prems(7) by (simp add: follows_def)
  ultimately have "\<forall>n. file_dict s n = file_dict tA n \<union> file_dict tB n"
    using Nil.prems(11) by (auto simp add: image_Un)
  then show ?case using Nil.prems(3,4,6) by simp
next
  case (Cons ev rest)
  obtain frame event co where ev: "ev = (frame, event, co)" by (cases ev)
  have two': "\<forall>(frame, event, co) \<in> set rest. co = A \<or> co = B"
    using Cons.prems(1) by simp
  have own': "lines_in_own_context self (pre @ [(frame, event, co)]) rest"
    using Cons.prems(2) by (simp add: ev)
  have agree: "event = Line \<longrightarrow>
         map_sum id (\<lambda>s. (plugin s, cur_file_dict s)) (run pre self) =
         map_sum id (\<lambda>s. (plugin s, cur_file_dict s)) (run (of_stream co pre) self)"
    using Cons.prems(2) by (simp add: ev)
  have co: "co = A \<or> co = B" using Cons.prems(1) by (simp add: ev)
  show ?case
  proof (cases "co = A")
    case True
    have nb: "co \<noteq> B" using True ne by simp
    from Cons.prems(14) obtain cA1 sA1 LA1 where
      w1: "walk_step self disp_of (frame, event, A) (curA, stkA, LA) = Some (cA1, sA1, LA1)"
      and wr: "walk self disp_of (of_stream A rest) (cA1, sA1, LA1) = Some wA'"
      by (auto simp add: ev True of_stream_Cons split: option.splits)
    have wrB: "walk self disp_of (of_stream B rest) (curB, stkB, LB) = Some wB'"
      using Cons.prems(15) nb by (simp add: ev of_stream_Cons)
    have ag: "event = Line \<longrightarrow> (plugin s, cur_file_dict s) = (plugin tA, cur_file_dict tA)"
      using agree Cons.prems(3,4) True by simp
    from lockstep_step [OF res run lm ne Cons.prems(5) Cons.prems(8,9,10,11,12) ag w1]
    obtain s1 tA1 where t1: "PyTracer_trace frame event A s = Inr (SelfTrace, s1)"
      and t2: "PyTracer_trace frame event A tA = Inr (SelfTrace, tA1)"
      and fA1: "follows self disp_of A baseA D tA1 (cA1, sA1, LA1)"
      and i1: "settings s1 = settings self" and i2: "last_exc_back s1 = None"
      and i3: "answers s1 disp_of"
      and i4: "\<forall>n. file_dict s1 n = D n \<union> LineKey ` (LA1 n \<union> LB n)"
      and i5: "length sA1 \<le> length (stream_stack A s1)"
      and i6: "stream_stack B s1 = stream_stack B s"
      by blast
    have r1: "run (pre @ [(frame, event, co)]) self = Inr s1"
      using run_snoc [OF Cons.prems(3) t1] True by simp
    have r2: "run (of_stream A (pre @ [(frame, event, co)])) self = Inr tA1"
      using run_snoc [OF Cons.prems(4) t2] True by (simp add: of_stream_snoc)
    have r3: "run (of_stream B (pre @ [(frame, event, co)])) self = Inr tB"
      using Cons.prems(6) nb by (simp add: of_stream_snoc)
    have i7: "length stkB \<le> length (stream_stack B s1)"
      using Cons.prems(13) i6 by simp
    from Cons.IH [OF two' own' r1 r2 fA1 r3 Cons.prems(7) i1 i2 i3 i4 i5 i7 wr wrB]
    show ?thesis by (simp add: ev)
  next
    case False
    then have cb: "co = B" using co by simp
    have na: "co \<noteq> A" using False .
    from Cons.prems(15) obtain cB1 sB1 LB1 where
      w1: "walk_step self disp_of (frame, event, B) (curB, stkB, LB) = Some (cB1, sB1, LB1)"
      and wr: "walk self disp_of (of_stream B rest) (cB1, sB1, LB1) = Some wB'"
      by (auto simp add: ev cb of_stream_Cons split: option.splits)
    have wrA: "walk self disp_of (of_stream A rest) (curA, stkA, LA) = Some wA'"
      using Cons.prems(14) na by (simp add: ev of_stream_Cons)
    have ag: "event = Line \<longrightarrow> (plugin s, cur_file_dict s) = (plugin tB, cur_file_dict tB)"
      using agree Cons.prems(3,6) cb by simp
    have dat': "\<forall>n. file_dict s n = D n \<union> LineKey ` (LB n \<union> LA n)"
      using Cons.prems(11) by (simp add: Un_commute)
    have ne': "B \<noteq> A" using ne by simp
    from lockstep_step [OF res run lm ne' Cons.prems(7) Cons.prems(8,9,10) dat' Cons.prems(13) ag w1]
    obtain s1 tB1 where t1: "PyTracer_trace frame event B s = Inr (SelfTrace, s1)"
      and t2: "PyTracer_trace frame event B tB = Inr (SelfTrace, tB1)"
      and fB1: "follows self disp_of B baseB D tB1 (cB1, sB1, LB1)"
      and i1: "settings s1 = settings self" and i2: "last_exc_back s1 = None"
      and i3: "answers s1 disp_of"
      and i4: "\<forall>n. file_dict s1 n = D n \<union> LineKey ` (LB1 n \<union> LA n)"
      and i5: "length sB1 \<le> length (stream_stack B s1)"
      and i6: "stream_stack A s1 = stream_stack A s"
      by blast
    have r1: "run (pre @ [(frame, event, co)]) self = Inr s1"
      using run_snoc [OF Cons.prems(3) t1] cb by simp
    have r2: "run (of_stream B (pre @ [(frame, event, co)])) self = Inr tB1"
      using run_snoc [OF Cons.prems(6) t2] cb by (simp add: of_stream_snoc)
    have r3: "run (of_stream A (pre @ [(frame, event, co)])) self = Inr tA"
      using Cons.prems(4) na by (simp add: of_stream_snoc)
    have i4': "\<forall>n. file_dict s1 n = D n \<union> LineKey ` (LA n \<union> LB1 n)"
      using i4 by (simp add: Un_commute)
    have i7: "length stkA \<le> length (stream_stack A s1)"
      using Cons.prems(12) i6 by simp
    from Cons.IH [OF two' own' r1 r3 Cons.prems(5) r2 fB1 i1 i2 i3 i4' i7 i5 wrA wr]
    show ?thesis by (simp add: ev)
  qed
qed

lemma own_context_union:
  assumes res: "coroutine_id_func self" and lm: "\<not> arcs self"
    and leb: "last_exc_back self = None" and ans: "answers self disp_of"
    and ne: "A \<noteq> B" and two: "\<forall>(frame, event, co) \<in> set evs. co = A \<or> co = B"
    and wpA: "well_paired (of_stream A evs)" and wpB: "well_paired (of_stream B evs)"
    and own: "lines_in_own_context self [] evs"
  shows "\<exists>s sA sB. run evs self = Inr s \<and>
           run (of_stream A evs) self = Inr sA \<and>
           run (of_stream B evs) self = Inr sB \<and>
           (\<forall>n. file_dict s n = file_dict sA n \<union> file_dict sB n)"
proof (cases "stopped self")
  case True
  then show ?thesis by (simp add: run_stopped)
next
  case False
  let ?cur = "(plugin self, cur_file_dict self)"
  from walk_block [OF wpA, of self disp_of ?cur "\<lambda>n. {}"]
  obtain LA where wA: "walk self disp_of (of_stream A evs) (?cur, [], \<lambda>n. {}) = Some (?cur, [], LA)"
    by blast
  from walk_block [OF wpB, of self disp_of ?cur "\<lambda>n. {}"]
  obtain LB where wB: "walk self disp_of (of_stream B evs) (?cur, [], \<lambda>n. {}) = Some (?cur, [], LB)"
    by blast
  have r0: "run [] self = Inr self" by simp
  have rA: "run (of_stream A []) self = Inr self" by (simp add: of_stream_def)
  have rB: "run (of_stream B []) self = Inr self" by (simp add: of_stream_def)
  have d0: "\<forall>n. file_dict self n = file_dict self n \<union> LineKey ` ({} \<union> {})" by simp
  have l0: "length ([] :: unit_ctx list) \<le> length (stream_stack c self)" for c by simp
  from lockstep [OF res False lm ne two own r0 rA follows_start [OF leb ans] rB
         follows_start [OF leb ans] refl leb ans d0 l0 l0 wA wB]
  show ?thesis by simp
qed

lemma entered_settings:
  "settings s = settings self \<Longrightarrow> entered s disp frame = entered self disp frame"
  by (simp add: entered_def settings_def tracename_of_def split: option.splits)

lemma stream_marks_stack:
  "stream_stack c s' = stream_stack c s \<Longrightarrow>
   stream_marks self disp_of c base s' own_c saved_c cur stk =
   stream_marks self disp_of c base s own_c saved_c cur stk"
  by (simp add: stream_marks_def)

lemma own_call_step:
  assumes res: "coroutine_id_func self" and run: "\<not> stopped self" and lm: "\<not> arcs self"
    and ne: "Y \<noteq> X"
    and set_s: "settings s = settings self" and leb: "last_exc_back s = None"
    and ans: "answers s disp_of"
    and live: "(plugin s, cur_file_dict s) = context_of self disp_of lv"
    and mX: "stream_marks self disp_of X baseX s ownX svX curX stkX"
    and own: "event = Line \<longrightarrow> lv = ownX"
    and w: "walk_step self disp_of (frame, event, X) (curX, stkX, LX) = Some (curX', stkX', LX')"
  shows "\<exists>s' lv' ownX' svX'.
           PyTracer_trace frame event X s = Inr (SelfTrace, s') \<and>
           settings s' = settings self \<and> last_exc_back s' = None \<and> answers s' disp_of \<and>
           (plugin s', cur_file_dict s') = context_of self disp_of lv' \<and>
           stream_marks self disp_of X baseX s' ownX' svX' curX' stkX' \<and>
           stream_stack Y s' = stream_stack Y s \<and>
           (event = Call \<longrightarrow> lv' = Some frame \<and> ownX' = Some frame \<and> svX' = (lv, ownX) # svX) \<and>
           (event = Line \<longrightarrow> lv' = lv \<and> ownX' = ownX \<and> svX' = svX) \<and>
           (event = Return \<longrightarrow> svX = (lv', ownX') # svX')"
proof -
  from set_s run lm res have run_s: "\<not> stopped s" and lm_s: "\<not> arcs s"
    and res_s: "coroutine_id_func s"
    by (simp_all add: settings_def)
  have st_s: "coroutine_id_func s \<longrightarrow> X = X" by simp
  have tr: "PyTracer_trace frame event X s =
     (case dispatch frame event X s of Inl e \<Rightarrow> Inl e | Inr s' \<Rightarrow> Inr (SelfTrace, s'))"
    using run_s leb by (rule trace_no_marker)
  from mX obtain top where stack: "stream_stack X s = baseX @ top"
    and top: "map (\<lambda>(p, d, l). (p, d)) top = rev (map (\<lambda>(a, b). context_of self disp_of a) svX)"
    and cur: "curX = context_of self disp_of ownX"
    and stk: "stkX = map (\<lambda>(a, b). context_of self disp_of b) svX"
    by (auto simp add: stream_marks_def)
  show ?thesis
  proof (cases event)
    case Call
    let ?s' = "on_call frame X s"
    have w': "stkX' = curX # stkX" "curX' = entered self (disp_of (co_filename frame)) frame"
      using w Call by simp_all
    have 1: "settings ?s' = settings self" using set_s by simp
    have 2: "last_exc_back ?s' = None" using leb by simp
    have 3: "answers ?s' disp_of" using ans by (rule answers_on_call)
    have 4: "(plugin ?s', cur_file_dict ?s') = context_of self disp_of (Some frame)"
      using on_call_ctx [OF ans, of frame X] entered_settings [OF set_s]
      by (simp add: context_of_def)
    have st': "stream_stack X ?s' = baseX @ (top @ [(plugin s, cur_file_dict s, last_line s)])"
      using on_call_stream_stack [OF st_s, of frame] stack by simp
    have top': "map (\<lambda>(p, d, l). (p, d)) (top @ [(plugin s, cur_file_dict s, last_line s)]) =
          rev (map (\<lambda>(a, b). context_of self disp_of a) ((lv, ownX) # svX))"
      using top live by simp
    have cs: "curX' = context_of self disp_of (Some frame)"
      using w' by (simp add: context_of_def)
    have ex: "\<exists>top. stream_stack X ?s' = baseX @ top \<and>
             map (\<lambda>(p, d, l). (p, d)) top =
               rev (map (\<lambda>(a, b). context_of self disp_of a) ((lv, ownX) # svX))"
      using st' top' by blast
    have 5: "stream_marks self disp_of X baseX ?s' (Some frame) ((lv, ownX) # svX) curX' stkX'"
      unfolding stream_marks_def using ex cs w'(1) cur stk by simp
    have 6: "stream_stack Y ?s' = stream_stack Y s"
      using on_call_other_stream [OF res_s ne] .
    have "PyTracer_trace frame event X s = Inr (SelfTrace, ?s')"
      using tr Call by (simp add: dispatch_def)
    then show ?thesis using 1 2 3 4 5 6 Call by blast
  next
    case Line
    have c: "(plugin s, cur_file_dict s) = curX" using live own Line cur by simp
    then have curX: "fst curX = plugin s" "snd curX = cur_file_dict s" by auto
    obtain a b where ab: "span_in (plugin s) frame = (a, b)" by (cases "span_in (plugin s) frame")
    have ne_list: "cur_file_dict s \<noteq> EmptyList"
      using w Line curX by (auto split: pyval.splits)
    from on_line_line_mode [OF lm_s ne_list ab] obtain s' where
      ol: "on_line frame s = Inr s'" and sv: "stack_view s' = stack_view s"
      and pl: "plugin s' = plugin s" and cf: "cur_file_dict s' = cur_file_dict s"
      by blast
    have 1: "settings s' = settings self" using settings_on_line [OF ol] set_s by simp
    have 2: "last_exc_back s' = None" using marker_on_line [OF ol] leb by simp
    have 3: "answers s' disp_of"
      using answers_view [OF oracle_on_line [OF ol] settings_on_line [OF ol] ans] .
    have w': "stkX' = stkX" "curX' = curX"
      using w Line by (auto split: pyval.splits)
    have 4: "(plugin s', cur_file_dict s') = context_of self disp_of lv"
      using pl cf live by simp
    have 5: "stream_marks self disp_of X baseX s' ownX svX curX' stkX'"
      using mX stream_marks_stack [OF stream_stack_view [OF sv, of X]] w' by simp
    have 6: "stream_stack Y s' = stream_stack Y s"
      using stream_stack_view [OF sv] .
    have "PyTracer_trace frame event X s = Inr (SelfTrace, s')"
      using tr Line ol by (simp add: dispatch_def)
    then show ?thesis using 1 2 3 4 5 6 Line by blast
  next
    case Return
    from w Return have sk: "stkX = curX' # stkX'"
      by (auto split: list.splits)
    from sk stk obtain l ow below where sv: "svX = (l, ow) # below"
      by (cases svX) auto
    have co: "curX' = context_of self disp_of ow"
      and sk': "stkX' = map (\<lambda>(a, b). context_of self disp_of b) below"
      using sk stk sv by simp_all
    have "map (\<lambda>(p, d, l). (p, d)) top =
            rev (map (\<lambda>(a, b). context_of self disp_of a) below) @ [context_of self disp_of l]"
      using top sv by simp
    then obtain xs e where tp: "top = xs @ [e]"
      and xs: "map (\<lambda>(p, d, l). (p, d)) xs = rev (map (\<lambda>(a, b). context_of self disp_of a) below)"
      and e: "(\<lambda>(p, d, l). (p, d)) e = context_of self disp_of l"
      by (cases top rule: rev_cases) auto
    obtain p d ll where e_def: "e = (p, d, ll)" by (cases e)
    have stack': "stream_stack X s = (baseX @ xs) @ [(p, d, ll)]"
      using stack tp e_def by simp
    from on_return_line_mode [OF lm_s st_s stack', of frame] obtain s' where
      orr: "on_return frame X s = Inr s'" and ss: "stream_stack X s' = baseX @ xs"
      and pl: "plugin s' = p" and cf: "cur_file_dict s' = d"
      by blast
    have 1: "settings s' = settings self" using settings_on_return [OF orr] set_s by simp
    have 2: "last_exc_back s' = None" using marker_on_return [OF orr] leb by simp
    have 3: "answers s' disp_of"
      using answers_view [OF oracle_on_return [OF orr] settings_on_return [OF orr] ans] .
    have 4: "(plugin s', cur_file_dict s') = context_of self disp_of l"
      using pl cf e e_def by simp
    have ex: "\<exists>top. stream_stack X s' = baseX @ top \<and>
             map (\<lambda>(p, d, l). (p, d)) top =
               rev (map (\<lambda>(a, b). context_of self disp_of a) below)"
      using ss xs by blast
    have 5: "stream_marks self disp_of X baseX s' ow below curX' stkX'"
      unfolding stream_marks_def using ex co sk' by simp
    have 6: "stream_stack Y s' = stream_stack Y s"
      using on_return_other_stream [OF res_s ne orr] .
    have "PyTracer_trace frame event X s = Inr (SelfTrace, s')"
      using tr Return orr by (simp add: dispatch_def)
    then show ?thesis using 1 2 3 4 5 6 Return sv by blast
  next
    case Exception
    then show ?thesis using w by simp
  next
    case OtherEvent
    then show ?thesis using w by simp
  qed
qed


lemma stopped_own_context: "stopped self \<Longrightarrow> lines_in_own_context self pre evs"
  by (induction evs arbitrary: pre) (auto simp add: run_stopped)

lemma stream_marks_start:
  "stream_marks self disp_of c (stream_stack c self) self None []
     (plugin self, cur_file_dict self) []"
  by (simp add: stream_marks_def context_of_def)

lemma own_call_live_step:
  assumes "own_call_live lv own saved ((frame, event, X) # rest)"
    and "event = Call \<longrightarrow> lv' = Some frame \<and> ownX' = Some frame \<and> svX' = (lv, own X) # saved X"
    and "event = Line \<longrightarrow> lv' = lv \<and> ownX' = own X \<and> svX' = saved X"
    and "event = Return \<longrightarrow> saved X = (lv', ownX') # svX'"
  shows "own_call_live lv' (own(X := ownX')) (saved(X := svX')) rest"
proof (cases event)
  case Call
  then have "lv' = Some frame" "ownX' = Some frame" "svX' = (lv, own X) # saved X"
    using assms(2) by simp_all
  then show ?thesis using assms(1) Call by simp
next
  case Line
  then have e: "lv' = lv" "ownX' = own X" "svX' = saved X"
    using assms(3) by simp_all
  have "own_call_live lv own saved rest" using assms(1) Line by auto
  then show ?thesis by (simp add: e)
next
  case Return
  then have "saved X = (lv', ownX') # svX'" using assms(4) by simp
  then show ?thesis using assms(1) Return by simp
next
  case Exception
  then show ?thesis using assms(1) by simp
next
  case OtherEvent
  then show ?thesis using assms(1) by simp
qed

lemma own_call:
  assumes res: "coroutine_id_func self" and run: "\<not> stopped self" and lm: "\<not> arcs self"
    and ne: "A \<noteq> B"
    and two: "\<forall>(frame, event, co) \<in> set rest. co = A \<or> co = B"
    and oc: "own_call_live lv own saved rest"
    and rs: "run pre self = Inr s"
    and rA: "run (of_stream A pre) self = Inr tA"
    and fA: "follows self disp_of A baseA D tA (curA, stkA, LA)"
    and rB: "run (of_stream B pre) self = Inr tB"
    and fB: "follows self disp_of B baseB D tB (curB, stkB, LB)"
    and set_s: "settings s = settings self" and leb: "last_exc_back s = None"
    and ans: "answers s disp_of"
    and live: "(plugin s, cur_file_dict s) = context_of self disp_of lv"
    and mA: "stream_marks self disp_of A baseA s (own A) (saved A) curA stkA"
    and mB: "stream_marks self disp_of B baseB s (own B) (saved B) curB stkB"
    and wA: "walk self disp_of (of_stream A rest) (curA, stkA, LA) = Some wA'"
    and wB: "walk self disp_of (of_stream B rest) (curB, stkB, LB) = Some wB'"
  shows "lines_in_own_context self pre rest"
  using two oc rs rA fA rB fB set_s leb ans live mA mB wA wB
proof (induction rest arbitrary: lv own saved pre s tA tB curA stkA LA curB stkB LB)
  case Nil
  then show ?case by simp
next
  case (Cons ev rest)
  obtain frame event co where ev: "ev = (frame, event, co)" by (cases ev)
  have two': "\<forall>(frame, event, co) \<in> set rest. co = A \<or> co = B"
    using Cons.prems(1) by simp
  have co: "co = A \<or> co = B" using Cons.prems(1) by (simp add: ev)
  have own: "event = Line \<longrightarrow> lv = own co"
    using Cons.prems(2) by (auto simp add: ev)
  show ?case
  proof (cases "co = A")
    case True
    have nb: "co \<noteq> B" using True ne by simp
    have oc0: "own_call_live lv own saved ((frame, event, A) # rest)"
      using Cons.prems(2) by (simp add: ev True)
    from Cons.prems(14) obtain cA1 sA1 LA1 where
      w1: "walk_step self disp_of (frame, event, A) (curA, stkA, LA) = Some (cA1, sA1, LA1)"
      and wr: "walk self disp_of (of_stream A rest) (cA1, sA1, LA1) = Some wA'"
      by (auto simp add: ev True of_stream_Cons split: option.splits)
    have wrB: "walk self disp_of (of_stream B rest) (curB, stkB, LB) = Some wB'"
      using Cons.prems(15) nb by (simp add: ev of_stream_Cons)
    have ownA: "event = Line \<longrightarrow> lv = own A" using own True by simp
    have ctA: "(plugin tA, cur_file_dict tA) = curA"
      using Cons.prems(5) by (simp add: follows_def)
    have cuA: "curA = context_of self disp_of (own A)"
      using Cons.prems(12) by (simp add: stream_marks_def)
    have agree: "event = Line \<longrightarrow>
         map_sum id (\<lambda>s. (plugin s, cur_file_dict s)) (run pre self) =
         map_sum id (\<lambda>s. (plugin s, cur_file_dict s)) (run (of_stream co pre) self)"
      using ownA ctA cuA Cons.prems(3,4,11) True by simp
    from own_call_step [OF res run lm ne [symmetric] Cons.prems(8,9,10,11,12) ownA w1]
    obtain s1 lv1 o1 sv1 where t1: "PyTracer_trace frame event A s = Inr (SelfTrace, s1)"
      and i1: "settings s1 = settings self" and i2: "last_exc_back s1 = None"
      and i3: "answers s1 disp_of"
      and i4: "(plugin s1, cur_file_dict s1) = context_of self disp_of lv1"
      and i5: "stream_marks self disp_of A baseA s1 o1 sv1 cA1 sA1"
      and i6: "stream_stack B s1 = stream_stack B s"
      and m1: "event = Call \<longrightarrow> lv1 = Some frame \<and> o1 = Some frame \<and> sv1 = (lv, own A) # saved A"
      and m2: "event = Line \<longrightarrow> lv1 = lv \<and> o1 = own A \<and> sv1 = saved A"
      and m3: "event = Return \<longrightarrow> saved A = (lv1, o1) # sv1"
      by blast
    have oc': "own_call_live lv1 (own(A := o1)) (saved(A := sv1)) rest"
      using own_call_live_step [OF oc0 m1 m2 m3] .
    have stX: "coroutine_id_func self \<longrightarrow> A = A" by simp
    from follows_step [OF Cons.prems(5) run lm stX w1] obtain tA1 where
      t2: "PyTracer_trace frame event A tA = Inr (SelfTrace, tA1)"
      and fA1: "follows self disp_of A baseA D tA1 (cA1, sA1, LA1)" by blast
    have r1: "run (pre @ [(frame, event, co)]) self = Inr s1"
      using run_snoc [OF Cons.prems(3) t1] True by simp
    have r2: "run (of_stream A (pre @ [(frame, event, co)])) self = Inr tA1"
      using run_snoc [OF Cons.prems(4) t2] True by (simp add: of_stream_snoc)
    have r3: "run (of_stream B (pre @ [(frame, event, co)])) self = Inr tB"
      using Cons.prems(6) nb by (simp add: of_stream_snoc)
    have mA': "stream_marks self disp_of A baseA s1 ((own(A := o1)) A) ((saved(A := sv1)) A) cA1 sA1"
      using i5 by simp
    have mB': "stream_marks self disp_of B baseB s1 ((own(A := o1)) B) ((saved(A := sv1)) B) curB stkB"
      using Cons.prems(13) stream_marks_stack [OF i6] ne by simp
    from Cons.IH [OF two' oc' r1 r2 fA1 r3 Cons.prems(7) i1 i2 i3 i4 mA' mB' wr wrB]
    show ?thesis using agree by (simp add: ev)
  next
    case False
    then have cb: "co = B" using co by simp
    have na: "co \<noteq> A" using False .
    have oc0: "own_call_live lv own saved ((frame, event, B) # rest)"
      using Cons.prems(2) by (simp add: ev cb)
    from Cons.prems(15) obtain cB1 sB1 LB1 where
      w1: "walk_step self disp_of (frame, event, B) (curB, stkB, LB) = Some (cB1, sB1, LB1)"
      and wr: "walk self disp_of (of_stream B rest) (cB1, sB1, LB1) = Some wB'"
      by (auto simp add: ev cb of_stream_Cons split: option.splits)
    have wrA: "walk self disp_of (of_stream A rest) (curA, stkA, LA) = Some wA'"
      using Cons.prems(14) na by (simp add: ev of_stream_Cons)
    have ownB: "event = Line \<longrightarrow> lv = own B" using own cb by simp
    have ctB: "(plugin tB, cur_file_dict tB) = curB"
      using Cons.prems(7) by (simp add: follows_def)
    have cuB: "curB = context_of self disp_of (own B)"
      using Cons.prems(13) by (simp add: stream_marks_def)
    have agree: "event = Line \<longrightarrow>
         map_sum id (\<lambda>s. (plugin s, cur_file_dict s)) (run pre self) =
         map_sum id (\<lambda>s. (plugin s, cur_file_dict s)) (run (of_stream co pre) self)"
      using ownB ctB cuB Cons.prems(3,6,11) cb by simp
    from own_call_step [OF res run lm ne Cons.prems(8,9,10,11,13) ownB w1]
    obtain s1 lv1 o1 sv1 where t1: "PyTracer_trace frame event B s = Inr (SelfTrace, s1)"
      and i1: "settings s1 = settings self" and i2: "last_exc_back s1 = None"
      and i3: "answers s1 disp_of"
      and i4: "(plugin s1, cur_file_dict s1) = context_of self disp_of lv1"
      and i5: "stream_marks self disp_of B baseB s1 o1 sv1 cB1 sB1"
      and i6: "stream_stack A s1 = stream_stack A s"
      and m1: "event = Call \<longrightarrow> lv1 = Some frame \<and> o1 = Some frame \<and> sv1 = (lv, own B) # saved B"
      and m2: "event = Line \<longrightarrow> lv1 = lv \<and> o1 = own B \<and> sv1 = saved B"
      and m3: "event = Return \<longrightarrow> saved B = (lv1, o1) # sv1"
      by blast
    have oc': "own_call_live lv1 (own(B := o1)) (saved(B := sv1)) rest"
      using own_call_live_step [OF oc0 m1 m2 m3] .
    have stX: "coroutine_id_func self \<longrightarrow> B = B" by simp
    from follows_step [OF Cons.prems(7) run lm stX w1] obtain tB1 where
      t2: "PyTracer_trace frame event B tB = Inr (SelfTrace, tB1)"
      and fB1: "follows self disp_of B baseB D tB1 (cB1, sB1, LB1)" by blast
    have r1: "run (pre @ [(frame, event, co)]) self = Inr s1"
      using run_snoc [OF Cons.prems(3) t1] cb by simp
    have r2: "run (of_stream B (pre @ [(frame, event, co)])) self = Inr tB1"
      using run_snoc [OF Cons.prems(6) t2] cb by (simp add: of_stream_snoc)
    have r3: "run (of_stream A (pre @ [(frame, event, co)])) self = Inr tA"
      using Cons.prems(4) na by (simp add: of_stream_snoc)
    have mB': "stream_marks self disp_of B baseB s1 ((own(B := o1)) B) ((saved(B := sv1)) B) cB1 sB1"
      using i5 by simp
    have mA': "stream_marks self disp_of A baseA s1 ((own(B := o1)) A) ((saved(B := sv1)) A) curA stkA"
      using Cons.prems(12) stream_marks_stack [OF i6] ne by simp
    from Cons.IH [OF two' oc' r1 r3 Cons.prems(5) r2 fB1 i1 i2 i3 i4 mA' mB' wrA wr]
    show ?thesis using agree by (simp add: ev)
  qed
qed

lemma own_call_own_context:
  assumes res: "coroutine_id_func self" and lm: "\<not> arcs self"
    and leb: "last_exc_back self = None" and ans: "answers self disp_of"
    and ne: "A \<noteq> B" and two: "\<forall>(frame, event, co) \<in> set evs. co = A \<or> co = B"
    and wpA: "well_paired (of_stream A evs)" and wpB: "well_paired (of_stream B evs)"
    and oc: "own_call_live None (\<lambda>c. None) (\<lambda>c. []) evs"
  shows "lines_in_own_context self [] evs"
proof (cases "stopped self")
  case True
  then show ?thesis by (rule stopped_own_context)
next
  case False
  let ?cur = "(plugin self, cur_file_dict self)"
  from walk_block [OF wpA, of self disp_of ?cur "\<lambda>n. {}"]
  obtain LA where wA: "walk self disp_of (of_stream A evs) (?cur, [], \<lambda>n. {}) = Some (?cur, [], LA)"
    by blast
  from walk_block [OF wpB, of self disp_of ?cur "\<lambda>n. {}"]
  obtain LB where wB: "walk self disp_of (of_stream B evs) (?cur, [], \<lambda>n. {}) = Some (?cur, [], LB)"
    by blast
  have r0: "run [] self = Inr self" by simp
  have rA: "run (of_stream A []) self = Inr self" by (simp add: of_stream_def)
  have rB: "run (of_stream B []) self = Inr self" by (simp add: of_stream_def)
  have l0: "(plugin self, cur_file_dict self) = context_of self disp_of None"
    by (simp add: context_of_def)
  show ?thesis
    by (rule own_call [OF res False lm ne two oc r0 rA follows_start [OF leb ans] rB
         follows_start [OF leb ans] refl leb ans l0 stream_marks_start stream_marks_start wA wB])
qed




text \<open>
  What the hypotheses are for, on \<open>bracketed\<close>. Without a resolver all coroutines
  share one stack: the return with which coroutine 1 resumes pops what coroutine 2
  pushed, and line 11 of \<open>f\<close> is recorded for \<open>g.py\<close>, line 21 of \<open>g\<close> for \<open>f.py\<close>. In
  arc mode the return handler writes the exit arc before it pops, from the live
  \<open>last_line\<close> of the other coroutine: the exit arc \<open>(31, -30)\<close> of coroutine 1 is
  lost and \<open>(32, -30)\<close> is recorded in its place.
\<close>

lemma bracketed_without_resolver_or_in_arc_mode:
  "\<not> lines_in_own_context (two_streams\<lparr>coroutine_id_func := False\<rparr>) [] bracketed \<and>
   recorded (run bracketed (two_streams\<lparr>coroutine_id_func := False\<rparr>)) ''f.py'' =
     Inr (Some {LineKey 10, LineKey 21}) \<and>
   recorded (run bracketed (two_streams\<lparr>coroutine_id_func := False\<rparr>)) ''g.py'' =
     Inr (Some {LineKey 11, LineKey 20}) \<and>
   recorded (run (of_stream 1 bracketed) (two_streams\<lparr>coroutine_id_func := False\<rparr>)) ''f.py'' =
     Inr (Some {LineKey 10, LineKey 11}) \<and>
   recorded (run bracketed (two_streams\<lparr>arcs := True\<rparr>)) ''hub.py'' =
     Inr (Some {ArcKey (- 1) 31, ArcKey (- 1) 32, ArcKey 32 (- 30)}) \<and>
   recorded (run (of_stream 1 bracketed) (two_streams\<lparr>arcs := True\<rparr>)) ''hub.py'' =
     Inr (Some {ArcKey (- 1) 31, ArcKey 31 (- 30)}) \<and>
   recorded (run (of_stream 2 bracketed) (two_streams\<lparr>arcs := True\<rparr>)) ''hub.py'' =
     Inr (Some {ArcKey (- 1) 32, ArcKey 32 (- 30)})"
  by (simp add: two_streams_def bracketed_def of_stream_def in_g_def in_hub_def
        input_defs trace_defs insert_commute)

end
